theory Spec2Isabelle
  imports Main "HOL-Library.AList" "HOL-Library.Multiset"
begin

section \<open>JavaScript values and strings\<close>

text \<open>
  The request body is parsed JSON, so a body field is absent (\<open>undefined\<close>), \<open>null\<close>, a
  boolean, a number or a string. The model covers these primitive values, with integral
  numbers; arrays and nested objects as field values are outside the model. A string is a
  list of characters; the model covers ASCII text, so a \<open>char\<close> is one code unit and
  \<open>length\<close> is the JavaScript \<open>.length\<close>.
\<close>

datatype jsval = JUndefined | JNull | JBool bool | JNum int | JStr string

text \<open>Truthiness, as tested by \<open>!v\<close>, \<open>v || d\<close> and \<open>v ? a : b\<close>.\<close>

fun js_truthy :: "jsval \<Rightarrow> bool" where
  "js_truthy JUndefined = False"
| "js_truthy JNull = False"
| "js_truthy (JBool b) = b"
| "js_truthy (JNum n) = (n \<noteq> 0)"
| "js_truthy (JStr s) = (s \<noteq> [])"

text \<open>The ASCII characters of the class \<open>\s\<close>, which are also those that \<open>trim\<close> removes.\<close>

definition js_space :: "char \<Rightarrow> bool" where
  "js_space c = (c \<in> set [CHR 0x09, CHR 0x0A, CHR 0x0B, CHR 0x0C, CHR 0x0D, CHR '' ''])"

text \<open>The class \<open>\d\<close>; \<open>\D\<close> is its complement.\<close>

definition is_digit :: "char \<Rightarrow> bool" where
  "is_digit c = (c \<in> set ''0123456789'')"

definition trim :: "string \<Rightarrow> string" where
  "trim s = rev (dropWhile js_space (rev (dropWhile js_space s)))"

definition toLowerCase_char :: "char \<Rightarrow> char" where
  "toLowerCase_char c =
     (case map_of (zip ''ABCDEFGHIJKLMNOPQRSTUVWXYZ'' ''abcdefghijklmnopqrstuvwxyz'') c of
        Some l \<Rightarrow> l
      | None \<Rightarrow> c)"

definition toLowerCase :: "string \<Rightarrow> string" where
  "toLowerCase s = map toLowerCase_char s"

definition startsWith :: "string \<Rightarrow> string \<Rightarrow> bool" where
  "startsWith s p = (take (length p) s = p)"

text \<open>\<open>String(v)\<close>, the coercion \<open>RegExp.prototype.test\<close> applies to its argument.\<close>

definition digit_char :: "nat \<Rightarrow> char" where
  "digit_char n = ''0123456789'' ! n"

fun show_nat :: "nat \<Rightarrow> string" where
  "show_nat n =
     (if n < 10 then [digit_char n] else show_nat (n div 10) @ [digit_char (n mod 10)])"

declare show_nat.simps [simp del]

definition show_int :: "int \<Rightarrow> string" where
  "show_int i = (if i < 0 then CHR ''-'' # show_nat (nat (- i)) else show_nat (nat i))"

fun js_toString :: "jsval \<Rightarrow> string" where
  "js_toString JUndefined = ''undefined''"
| "js_toString JNull = ''null''"
| "js_toString (JBool b) = (if b then ''true'' else ''false'')"
| "js_toString (JNum n) = show_int n"
| "js_toString (JStr s) = s"

section \<open>Validators (server.js, lines 18 to 42)\<close>

text \<open>
  \<open>isValidEmail\<close> tests the regular expression \<open>/^[^\s@]+@[^\s@]+\.[^\s@]+$/\<close>. A character
  of the class \<open>[^\s@]\<close> is an \<open>email_char\<close>. The first \<open>@\<close> of the string is the one the
  expression matches, since none may stand before it; what follows it must consist of
  such characters and have a dot that is neither its first nor its last character.
\<close>

definition email_char :: "char \<Rightarrow> bool" where
  "email_char c = (\<not> js_space c \<and> c \<noteq> CHR ''@'')"

definition regex_test :: "string \<Rightarrow> bool" where
  "regex_test s =
     (let local_part = takeWhile (\<lambda>c. c \<noteq> CHR ''@'') s;
          rest = dropWhile (\<lambda>c. c \<noteq> CHR ''@'') s
      in case rest of
           [] \<Rightarrow> False
         | _ # domain_part \<Rightarrow>
             local_part \<noteq> [] \<and> list_all email_char local_part \<and>
             list_all email_char domain_part \<and>
             CHR ''.'' \<in> set (butlast (tl domain_part)))"

definition isValidEmail :: "jsval \<Rightarrow> bool" where
  "isValidEmail email = regex_test (js_toString email)"

definition isValidPhone :: "jsval \<Rightarrow> bool" where
  "isValidPhone phone =
     (case phone of
        JStr s \<Rightarrow>
          if s = [] then False
          else
            let cleanPhone = filter is_digit s in
            if startsWith cleanPhone ''55''
            then
              let phoneWithoutCountry = drop 2 cleanPhone
              in 10 \<le> length phoneWithoutCountry \<and> length phoneWithoutCountry \<le> 11
            else 10 \<le> length cleanPhone \<and> length cleanPhone \<le> 11
      | _ \<Rightarrow> False)"

definition sanitizeInput :: "jsval \<Rightarrow> jsval" where
  "sanitizeInput v =
     (case v of
        JStr s \<Rightarrow> JStr (filter (\<lambda>c. c \<noteq> CHR ''<'' \<and> c \<noteq> CHR ''>'') (trim s))
      | _ \<Rightarrow> v)"

section \<open>Numbers of the listing\<close>

text \<open>
  The numbers these handlers compute are doubles with integer values: \<open>NaN\<close>, an
  infinity (\<open>Infinity True\<close> is the negative one) or \<open>Num n\<close> for an integer \<open>n\<close> that a
  double holds. The sign of zero is not kept. \<open>to_double\<close> rounds an integer to the
  nearest double, ties to the even significand of 53 bits, and to an infinity from
  \<open>2^1024\<close> on.
\<close>

datatype jsnum = NaN | Infinity bool | Num int

fun bit_length :: "nat \<Rightarrow> nat" where
  "bit_length n = (if n = 0 then 0 else Suc (bit_length (n div 2)))"

declare bit_length.simps [simp del]

definition round53 :: "nat \<Rightarrow> nat" where
  "round53 n =
     (if n < 2 ^ 53 then n
      else
        let k = bit_length n - 53;
            q = n div 2 ^ k;
            r = n mod 2 ^ k;
            half = 2 ^ (k - 1)
        in (if half < r \<or> (r = half \<and> odd q) then q + 1 else q) * 2 ^ k)"

definition to_double :: "int \<Rightarrow> jsnum" where
  "to_double i =
     (let m = round53 (nat \<bar>i\<bar>)
      in if 2 ^ 1024 \<le> m then Infinity (i < 0)
         else Num (if i < 0 then - int m else int m))"

text \<open>\<open>x - 1\<close> and \<open>x * y\<close> on these numbers.\<close>

definition js_minus_one :: "jsnum \<Rightarrow> jsnum" where
  "js_minus_one x = (case x of Num n \<Rightarrow> to_double (n - 1) | _ \<Rightarrow> x)"

definition js_times :: "jsnum \<Rightarrow> jsnum \<Rightarrow> jsnum" where
  "js_times x y =
     (case x of
        NaN \<Rightarrow> NaN
      | Num a \<Rightarrow>
          (case y of
             NaN \<Rightarrow> NaN
           | Num b \<Rightarrow> to_double (a * b)
           | Infinity t \<Rightarrow> if a = 0 then NaN else Infinity (t \<noteq> (a < 0)))
      | Infinity s \<Rightarrow>
          (case y of
             NaN \<Rightarrow> NaN
           | Num b \<Rightarrow> if b = 0 then NaN else Infinity (s \<noteq> (b < 0))
           | Infinity t \<Rightarrow> Infinity (s \<noteq> t)))"

text \<open>A number in the JSON sent: \<open>NaN\<close> and the infinities are written \<open>null\<close>, here \<open>None\<close>.\<close>

definition json_num :: "jsnum \<Rightarrow> int option" where
  "json_num x = (case x of Num n \<Rightarrow> Some n | _ \<Rightarrow> None)"

text \<open>
  \<open>parseInt(s)\<close> with no radix: leading white space, an optional sign, then hexadecimal
  digits after \<open>0x\<close> or \<open>0X\<close>, decimal digits otherwise, up to the first character that is
  not a digit; the double nearest to the integer read, \<open>NaN\<close> when there is no digit.
\<close>

definition digit_value :: "nat \<Rightarrow> char \<Rightarrow> nat option" where
  "digit_value radix c =
     (case map_of (zip ''0123456789abcdefABCDEF''
                       [0, 1, 2, 3, 4, 5, 6, 7, 8, 9, 10, 11, 12, 13, 14, 15, 10, 11, 12, 13, 14, 15]) c of
        Some v \<Rightarrow> if v < radix then Some v else None
      | None \<Rightarrow> None)"

definition digits_value :: "nat \<Rightarrow> string \<Rightarrow> nat" where
  "digits_value radix ds =
     foldl (\<lambda>a c. case digit_value radix c of Some v \<Rightarrow> a * radix + v | None \<Rightarrow> a) 0 ds"

definition parseInt :: "string \<Rightarrow> jsnum" where
  "parseInt s =
     (let s1 = dropWhile js_space s;
          negative = startsWith s1 ''-'';
          s2 = (if startsWith s1 ''-'' \<or> startsWith s1 ''+'' then tl s1 else s1);
          hex = (startsWith s2 ''0x'' \<or> startsWith s2 ''0X'');
          radix = (if hex then 16 else 10);
          s3 = (if hex then drop 2 s2 else s2);
          ds = takeWhile (\<lambda>c. digit_value radix c \<noteq> None) s3
      in if ds = [] then NaN
         else to_double ((if negative then - 1 else 1) * int (digits_value radix ds)))"

text \<open>
  \<open>Math.ceil(a / b)\<close> for a count \<open>a\<close> of rows, which is below \<open>2^53\<close>, so that the
  rounding of the quotient does not change its ceiling. \<open>None\<close> when the quotient is
  \<open>NaN\<close> or infinite, which \<open>JSON.stringify\<close> writes as \<open>null\<close>.
\<close>

definition js_ceil_div :: "nat \<Rightarrow> jsnum \<Rightarrow> int option" where
  "js_ceil_div a b =
     (case b of
        NaN \<Rightarrow> None
      | Infinity s \<Rightarrow> Some 0
      | Num l \<Rightarrow> if l = 0 then None else Some (- ((- int a) div l)))"

section \<open>Data model (tables \<open>leads\<close> and \<open>conversoes\<close> of the migration)\<close>

text \<open>
  A row of \<open>leads\<close>, with the field names of the client (\<open>lead_id\<close> is the column \<open>id\<close>).
  Nullable columns are options; timestamps are milliseconds. The table \<open>interacoes\<close> is
  never read or written by the server and is left out.
\<close>

record lead =
  lead_id :: string
  nome :: string
  email :: string
  telefone :: string
  origem :: "string option"
  status :: string
  utmSource :: "string option"
  utmMedium :: "string option"
  utmCampaign :: "string option"
  utmContent :: "string option"
  utmTerm :: "string option"
  ip :: "string option"
  userAgent :: "string option"
  referer :: "string option"
  dataCaptura :: int
  dataAtualizacao :: int

text \<open>The column \<open>valor\<close> holds a double: \<open>ParseFloat v\<close> stands for the value of
  \<open>parseFloat(v)\<close>, which is not computed here; what the store does with a \<open>NaN\<close> is not
  modelled.\<close>

datatype float_val = ParseFloat jsval

record conversao =
  conversao_id :: string
  leadId :: string
  tipo :: string
  valor :: "float_val option"
  descricao :: "string option"
  dataConversao :: int

record db =
  leads :: "lead list"
  conversoes :: "conversao list"

section \<open>Environment of a request\<close>

text \<open>
  What a handler reads besides the request and the store: the configured secret
  \<open>process.env.API_KEY\<close> (absent when not configured), the clock, the local midnight of
  the current day, the identifier the client generates for a new row, the calls of
  the storage client that fail in this request for reasons outside the program (the
  store is unreachable, the statement is rejected), and the rank the store gives the
  rows of a query where the requested ordering leaves them equal.
\<close>

datatype dbop =
  QueryRaw | LeadFindUnique | LeadCreate | LeadFindMany | LeadCount | LeadUpdate
  | LeadGroupBy | ConversaoCreate

record env =
  API_KEY :: "string option"
  now :: int
  midnight :: int
  new_id :: string
  unavailable :: "dbop list"
  tie_break :: "lead \<Rightarrow> nat"

text \<open>What a storage call or the handler's own code throws: the client's known request
  errors \<open>P2002\<close> (unique constraint) and \<open>P2025\<close> (record not found), or anything else
  (validation errors, connection errors, a \<open>TypeError\<close>), which carries no such code.\<close>

datatype error = P2002 | P2025 | OtherError

section \<open>Storage client\<close>

definition lead_findUnique_email :: "env \<Rightarrow> db \<Rightarrow> string \<Rightarrow> error + lead option" where
  "lead_findUnique_email e d addr =
     (if LeadFindUnique \<in> set (unavailable e) then Inl OtherError
      else Inr (find (\<lambda>l. email l = addr) (leads d)))"

definition lead_findUnique_id :: "env \<Rightarrow> db \<Rightarrow> string \<Rightarrow> error + lead option" where
  "lead_findUnique_id e d i =
     (if LeadFindUnique \<in> set (unavailable e) then Inl OtherError
      else Inr (find (\<lambda>l. lead_id l = i) (leads d)))"

text \<open>\<open>create\<close> on \<open>leads\<close>: the primary key \<open>leads_pkey\<close> and the unique index
  \<open>leads_email_key\<close> reject a row whose id or email is already stored.\<close>

definition lead_create :: "env \<Rightarrow> db \<Rightarrow> lead \<Rightarrow> error + (lead \<times> db)" where
  "lead_create e d row =
     (if LeadCreate \<in> set (unavailable e) then Inl OtherError
      else if list_ex (\<lambda>l. lead_id l = lead_id row \<or> email l = email row) (leads d)
      then Inl P2002
      else Inr (row, d\<lparr>leads := leads d @ [row]\<rparr>))"

text \<open>\<open>update\<close> on \<open>leads\<close> by id, setting the status; the column \<open>data_atualizacao\<close>
  follows every update.\<close>

definition lead_update :: "env \<Rightarrow> db \<Rightarrow> string \<Rightarrow> string \<Rightarrow> error + (lead \<times> db)" where
  "lead_update e d i st =
     (if LeadUpdate \<in> set (unavailable e) then Inl OtherError
      else case find (\<lambda>l. lead_id l = i) (leads d) of
             None \<Rightarrow> Inl P2025
           | Some l \<Rightarrow>
               Inr (l\<lparr>status := st, dataAtualizacao := now e\<rparr>,
                    d\<lparr>leads := map (\<lambda>x. if lead_id x = i
                                          then x\<lparr>status := st, dataAtualizacao := now e\<rparr>
                                          else x) (leads d)\<rparr>))"

text \<open>\<open>create\<close> on \<open>conversoes\<close>: the table has a primary key and no foreign key, so
  \<open>lead_id\<close> is not checked against \<open>leads\<close>.\<close>

definition conversao_create :: "env \<Rightarrow> db \<Rightarrow> conversao \<Rightarrow> error + (conversao \<times> db)" where
  "conversao_create e d row =
     (if ConversaoCreate \<in> set (unavailable e) then Inl OtherError
      else if list_ex (\<lambda>c. conversao_id c = conversao_id row) (conversoes d) then Inl P2002
      else Inr (row, d\<lparr>conversoes := conversoes d @ [row]\<rparr>))"

text \<open>
  \<open>orderBy: { dataCaptura: 'desc' }\<close>. The order of rows of equal time is not specified:
  it is the store's choice for each query, given by \<open>tie_break\<close>.
\<close>

definition orderBy_dataCaptura_desc :: "env \<Rightarrow> lead list \<Rightarrow> lead list" where
  "orderBy_dataCaptura_desc e ls = sort_key (\<lambda>l. - dataCaptura l) (sort_key (tie_break e) ls)"

text \<open>
  \<open>findMany\<close> with \<open>where\<close>, \<open>skip\<close>, \<open>take\<close> and the ordering above. The client rejects a
  \<open>skip\<close> or \<open>take\<close> that is not a 64-bit integer (\<open>NaN\<close>, an infinity, a double out of
  that range) and a negative \<open>skip\<close>; a negative \<open>take\<close> reads from the end of the
  ordered rows.
\<close>

definition fits_int64 :: "int \<Rightarrow> bool" where
  "fits_int64 n = (- (2 ^ 63) \<le> n \<and> n < 2 ^ 63)"

definition lead_findMany ::
  "env \<Rightarrow> db \<Rightarrow> (lead \<Rightarrow> bool) \<Rightarrow> jsnum \<Rightarrow> jsnum \<Rightarrow> error + lead list" where
  "lead_findMany e d wh skip tk =
     (if LeadFindMany \<in> set (unavailable e) then Inl OtherError
      else case (skip, tk) of
             (Num s, Num t) \<Rightarrow>
               if s < 0 \<or> \<not> fits_int64 s \<or> \<not> fits_int64 t then Inl OtherError
               else
                 let rows = orderBy_dataCaptura_desc e (filter wh (leads d))
                 in Inr (if 0 \<le> t then take (nat t) (drop (nat s) rows)
                         else rev (take (nat (- t)) (drop (nat s) (rev rows))))
           | _ \<Rightarrow> Inl OtherError)"

definition lead_count :: "env \<Rightarrow> db \<Rightarrow> (lead \<Rightarrow> bool) \<Rightarrow> error + nat" where
  "lead_count e d wh =
     (if LeadCount \<in> set (unavailable e) then Inl OtherError
      else Inr (length (filter wh (leads d))))"

text \<open>\<open>groupBy\<close> one column with the \<open>_count\<close> of that column: one entry per distinct
  value, counting the rows of the group in which the column is not null (none in the
  group of \<open>null\<close>).\<close>

definition lead_groupBy ::
  "env \<Rightarrow> db \<Rightarrow> (lead \<Rightarrow> string option) \<Rightarrow> (lead \<Rightarrow> bool)
     \<Rightarrow> error + (string option \<times> nat) list" where
  "lead_groupBy e d col wh =
     (if LeadGroupBy \<in> set (unavailable e) then Inl OtherError
      else
        let rows = filter wh (leads d)
        in Inr (map (\<lambda>k. (k, length (filter (\<lambda>l. col l = k \<and> col l \<noteq> None) rows)))
                  (remdups (map col rows))))"

section \<open>Requests and responses\<close>

text \<open>
  A request as the handlers read it: the query string (\<open>req.query\<close>, a parameter is
  absent or a string; repeated and bracketed parameters are outside the model), the
  body (\<open>req.body\<close>, an object, empty when the request has none; an absent field is
  \<open>undefined\<close>), the headers read by \<open>req.get\<close> and \<open>req.ip\<close>. The route parameter
  (\<open>:id\<close>, \<open>:leadId\<close>) comes with the route.
\<close>

record request =
  query :: "string \<Rightarrow> string option"
  body :: "string \<Rightarrow> jsval"
  header :: "string \<Rightarrow> string option"
  req_ip :: "string option"

text \<open>The \<open>pagination\<close> object of the listing; a number that is not finite is \<open>null\<close> in
  the JSON sent, here \<open>None\<close>.\<close>

record pagination =
  total :: nat
  page :: "int option"
  limit :: "int option"
  totalPages :: "int option"

record stats =
  resumo_total :: nat
  resumo_hoje :: nat
  resumo_semana :: nat
  resumo_mes :: nat
  porStatus :: "(string \<times> nat) list"
  porOrigem :: "(string \<times> nat) list"
  porUtmSource :: "(string \<times> nat) list"

text \<open>The \<open>data\<close> of a response (with \<open>pagination\<close> and \<open>filters\<close> for the listing, and
  \<open>database\<close> for the health check).\<close>

datatype payload =
  NoData
  | DataAnterior int
  | LeadSummary string string string int
  | LeadList "(string \<times> jsval) list list" pagination "string option \<times> string option \<times> string option"
  | LeadData lead
  | StatsData stats
  | ConversaoData conversao
  | Database string

text \<open>A response: the HTTP status, \<open>success\<close>, \<open>code\<close> and the data. The \<open>message\<close> is a
  fixed text for each \<open>code\<close> and is left out.\<close>

record response =
  http_status :: nat
  success :: bool
  code :: "string option"
  data :: payload

definition failure :: "nat \<Rightarrow> string \<Rightarrow> response" where
  "failure st c = \<lparr>http_status = st, success = False, code = Some c, data = NoData\<rparr>"

definition ok :: "nat \<Rightarrow> payload \<Rightarrow> response" where
  "ok st p = \<lparr>http_status = st, success = True, code = None, data = p\<rparr>"

section \<open>Access check (the same condition in five handlers)\<close>

text \<open>\<open>key !== process.env.API_KEY && key !== 'mente-milionaria-2024'\<close>: an absent key
  and an absent secret are both \<open>undefined\<close>, hence equal.\<close>

definition unauthorized :: "env \<Rightarrow> request \<Rightarrow> bool" where
  "unauthorized e req =
     (query req ''key'' \<noteq> API_KEY e \<and> query req ''key'' \<noteq> Some ''mente-milionaria-2024'')"

section \<open>POST /api/leads (server.js, lines 72 to 196)\<close>

text \<open>\<open>v.length < n\<close>: a value with no \<open>length\<close> compares as \<open>undefined < n\<close>, false.\<close>

definition length_lt :: "jsval \<Rightarrow> nat \<Rightarrow> bool" where
  "length_lt v n = (case v of JStr s \<Rightarrow> length s < n | _ \<Rightarrow> False)"

text \<open>\<open>a || b\<close>.\<close>

definition js_or :: "jsval \<Rightarrow> jsval \<Rightarrow> jsval" where
  "js_or a b = (if js_truthy a then a else b)"

text \<open>A value the client accepts for a nullable text column, and what it stores.\<close>

definition is_text :: "jsval \<Rightarrow> bool" where
  "is_text v = (case v of JStr _ \<Rightarrow> True | JNull \<Rightarrow> True | JUndefined \<Rightarrow> True | _ \<Rightarrow> False)"

definition text_of :: "jsval \<Rightarrow> string option" where
  "text_of v = (case v of JStr s \<Rightarrow> Some s | _ \<Rightarrow> None)"

text \<open>\<open>req.get(h) || null\<close>.\<close>

definition header_or_null :: "request \<Rightarrow> string \<Rightarrow> string option" where
  "header_or_null req h =
     (case header req h of None \<Rightarrow> None | Some s \<Rightarrow> if s = [] then None else Some s)"

text \<open>The catch block of the handler (lines 178 to 195).\<close>

definition post_leads_catch :: "error \<Rightarrow> response" where
  "post_leads_catch err =
     (if err = P2002 then failure 409 ''EMAIL_EXISTS'' else failure 500 ''INTERNAL_ERROR'')"

text \<open>
  Lines 87 to 139: sanitising, the four validations and the look-up of the email. The
  result is the response sent, or \<open>None\<close> when the handler goes on to create the row.
\<close>

definition post_leads_check :: "env \<Rightarrow> request \<Rightarrow> db \<Rightarrow> error + response option" where
  "post_leads_check e req d =
     (let nome_s = sanitizeInput (body req ''nome'');
          email_s = sanitizeInput (body req ''email'');
          telefone_s = sanitizeInput (body req ''telefone'')
      in
        if \<not> js_truthy nome_s \<or> \<not> js_truthy email_s \<or> \<not> js_truthy telefone_s
        then Inr (Some (failure 400 ''MISSING_FIELDS''))
        else if length_lt nome_s 2 then Inr (Some (failure 400 ''INVALID_NAME''))
        else if \<not> isValidEmail email_s then Inr (Some (failure 400 ''INVALID_EMAIL''))
        else if \<not> isValidPhone telefone_s then Inr (Some (failure 400 ''INVALID_PHONE''))
        else
          case email_s of
            JStr addr \<Rightarrow>
              (case lead_findUnique_email e d (toLowerCase addr) of
                 Inl err \<Rightarrow> Inl err
               | Inr (Some existingLead) \<Rightarrow>
                   Inr (Some ((failure 409 ''EMAIL_EXISTS'')
                                \<lparr>data := DataAnterior (dataCaptura existingLead)\<rparr>))
               | Inr None \<Rightarrow> Inr None)
          | _ \<Rightarrow> Inl OtherError)"

text \<open>
  Lines 141 to 176: the row is built and created, and the summary is sent. A field that
  is not a string where \<open>trim\<close> or \<open>toLowerCase\<close> is called throws, and so does the
  client on a value that is not text for a text column (\<open>lead_data_accepted\<close>).
  \<open>lead_data\<close> is the \<open>data\<close> object of the call, with the identifier and the two
  timestamps the client and the store add.
\<close>

definition lead_data_accepted :: "request \<Rightarrow> bool" where
  "lead_data_accepted req =
     list_all is_text
       [js_or (sanitizeInput (body req ''origem'')) (JStr ''website''),
        js_or (body req ''utm_source'') JNull, js_or (body req ''utm_medium'') JNull,
        js_or (body req ''utm_campaign'') JNull, js_or (body req ''utm_content'') JNull,
        js_or (body req ''utm_term'') JNull]"

definition lead_data :: "env \<Rightarrow> request \<Rightarrow> string \<Rightarrow> string \<Rightarrow> string \<Rightarrow> lead" where
  "lead_data e req nome_s email_s telefone_s =
     \<lparr>lead_id = new_id e,
      nome = trim nome_s,
      email = trim (toLowerCase email_s),
      telefone = trim telefone_s,
      origem = text_of (js_or (sanitizeInput (body req ''origem'')) (JStr ''website'')),
      status = ''novo'',
      utmSource = text_of (js_or (body req ''utm_source'') JNull),
      utmMedium = text_of (js_or (body req ''utm_medium'') JNull),
      utmCampaign = text_of (js_or (body req ''utm_campaign'') JNull),
      utmContent = text_of (js_or (body req ''utm_content'') JNull),
      utmTerm = text_of (js_or (body req ''utm_term'') JNull),
      ip = req_ip req,
      userAgent = header_or_null req ''User-Agent'',
      referer = header_or_null req ''Referer'',
      dataCaptura = now e,
      dataAtualizacao = now e\<rparr>"

definition post_leads_create :: "env \<Rightarrow> request \<Rightarrow> db \<Rightarrow> error + (response \<times> db)" where
  "post_leads_create e req d =
     (case (sanitizeInput (body req ''nome''), sanitizeInput (body req ''email''),
            sanitizeInput (body req ''telefone'')) of
        (JStr nome_s, JStr email_s, JStr telefone_s) \<Rightarrow>
          if \<not> lead_data_accepted req then Inl OtherError
          else
            (case lead_create e d (lead_data e req nome_s email_s telefone_s) of
               Inl err \<Rightarrow> Inl err
             | Inr (newLead, d') \<Rightarrow>
                 Inr (ok 201 (LeadSummary (lead_id newLead) (nome newLead) (email newLead)
                                (dataCaptura newLead)),
                      d'))
      | _ \<Rightarrow> Inl OtherError)"

text \<open>
  The handler awaits the store twice: the look-up reads the store as it is then, the
  creation acts on the store as it is later, and another request may have committed in
  between. \<open>post_leads_interleaved\<close> takes both states; \<open>post_leads\<close> is the handler
  with nothing in between.
\<close>

definition post_leads_interleaved :: "env \<Rightarrow> request \<Rightarrow> db \<Rightarrow> db \<Rightarrow> response \<times> db" where
  "post_leads_interleaved e req d_lookup d =
     (case post_leads_check e req d_lookup of
        Inl err \<Rightarrow> (post_leads_catch err, d)
      | Inr (Some r) \<Rightarrow> (r, d)
      | Inr None \<Rightarrow>
          (case post_leads_create e req d of
             Inl err \<Rightarrow> (post_leads_catch err, d)
           | Inr (r, d') \<Rightarrow> (r, d')))"

definition post_leads :: "env \<Rightarrow> request \<Rightarrow> db \<Rightarrow> response \<times> db" where
  "post_leads e req d = post_leads_interleaved e req d d"

section \<open>GET /api/leads (server.js, lines 199 to 279)\<close>

text \<open>\<open>contains\<close> with \<open>mode: 'insensitive'\<close>: the pattern occurs in the text, letter case
  ignored.\<close>

fun contains :: "string \<Rightarrow> string \<Rightarrow> bool" where
  "contains [] p = (p = [])"
| "contains (c # s) p = (startsWith (c # s) p \<or> contains s p)"

definition contains_insensitive :: "string \<Rightarrow> string \<Rightarrow> bool" where
  "contains_insensitive s p = contains (toLowerCase s) (toLowerCase p)"

text \<open>The \<open>where\<close> object: each filter is set when its query parameter is a non-empty
  string.\<close>

definition leads_where :: "request \<Rightarrow> lead \<Rightarrow> bool" where
  "leads_where req l =
     ((case query req ''status'' of
         None \<Rightarrow> True
       | Some st \<Rightarrow> st = [] \<or> status l = st) \<and>
      (case query req ''origem'' of
         None \<Rightarrow> True
       | Some orig \<Rightarrow> orig = [] \<or> origem l = Some orig) \<and>
      (case query req ''search'' of
         None \<Rightarrow> True
       | Some sr \<Rightarrow> sr = [] \<or> contains_insensitive (nome l) sr \<or> contains_insensitive (email l) sr))"

text \<open>The \<open>select\<close> of the listing: twelve fields of a row, as a JSON object.\<close>

definition json_text :: "string option \<Rightarrow> jsval" where
  "json_text t = (case t of None \<Rightarrow> JNull | Some s \<Rightarrow> JStr s)"

definition select_lead :: "lead \<Rightarrow> (string \<times> jsval) list" where
  "select_lead l =
     [(''id'', JStr (lead_id l)), (''nome'', JStr (nome l)), (''email'', JStr (email l)),
      (''telefone'', JStr (telefone l)), (''origem'', json_text (origem l)),
      (''status'', JStr (status l)), (''utmSource'', json_text (utmSource l)),
      (''utmMedium'', json_text (utmMedium l)), (''utmCampaign'', json_text (utmCampaign l)),
      (''dataCaptura'', JNum (dataCaptura l)), (''dataAtualizacao'', JNum (dataAtualizacao l)),
      (''ip'', json_text (ip l))]"

text \<open>\<open>parseInt\<close> of a query parameter with a numeric default (\<open>page = 1\<close>, \<open>limit = 20\<close>).\<close>

definition parseInt_param :: "request \<Rightarrow> string \<Rightarrow> int \<Rightarrow> jsnum" where
  "parseInt_param req name dflt =
     (case query req name of None \<Rightarrow> to_double dflt | Some s \<Rightarrow> parseInt s)"

text \<open>\<open>(parseInt(page) - 1) * parseInt(limit)\<close>, in double arithmetic.\<close>

definition skip_of :: "jsnum \<Rightarrow> jsnum \<Rightarrow> jsnum" where
  "skip_of pg lim = js_times (js_minus_one pg) lim"

definition get_leads :: "env \<Rightarrow> request \<Rightarrow> db \<Rightarrow> response" where
  "get_leads e req d =
     (if unauthorized e req then failure 401 ''UNAUTHORIZED''
      else
        let pg = parseInt_param req ''page'' 1;
            lim = parseInt_param req ''limit'' 20
        in case (lead_findMany e d (leads_where req) (skip_of pg lim) lim,
                 lead_count e d (leads_where req)) of
             (Inr rows, Inr n) \<Rightarrow>
               ok 200 (LeadList (map select_lead rows)
                         \<lparr>total = n, page = json_num pg, limit = json_num lim,
                          totalPages = js_ceil_div n lim\<rparr>
                         (query req ''status'', query req ''search'', query req ''origem''))
           | _ \<Rightarrow> failure 500 ''INTERNAL_ERROR'')"

section \<open>GET /api/leads/:id (server.js, lines 282 to 324)\<close>

definition get_lead :: "env \<Rightarrow> string \<Rightarrow> request \<Rightarrow> db \<Rightarrow> response" where
  "get_lead e i req d =
     (if unauthorized e req then failure 401 ''UNAUTHORIZED''
      else case lead_findUnique_id e d i of
             Inl err \<Rightarrow> failure 500 ''INTERNAL_ERROR''
           | Inr None \<Rightarrow> failure 404 ''LEAD_NOT_FOUND''
           | Inr (Some l) \<Rightarrow> ok 200 (LeadData l))"

section \<open>PATCH /api/leads/:id/status (server.js, lines 327 to 377)\<close>

definition validStatuses :: "string list" where
  "validStatuses = [''novo'', ''contatado'', ''interessado'', ''convertido'', ''descartado'']"

text \<open>\<open>validStatuses.includes(status)\<close>: only a string can be an element, so the
  status written by the handler is a string (its last case below cannot occur).\<close>

definition js_includes :: "string list \<Rightarrow> jsval \<Rightarrow> bool" where
  "js_includes xs v = (case v of JStr s \<Rightarrow> s \<in> set xs | _ \<Rightarrow> False)"

definition patch_status :: "env \<Rightarrow> string \<Rightarrow> request \<Rightarrow> db \<Rightarrow> response \<times> db" where
  "patch_status e i req d =
     (if unauthorized e req then (failure 401 ''UNAUTHORIZED'', d)
      else if \<not> js_includes validStatuses (body req ''status'')
      then (failure 400 ''INVALID_STATUS'', d)
      else
        case body req ''status'' of
          JStr st \<Rightarrow>
            (case lead_update e d i st of
               Inl err \<Rightarrow>
                 (if err = P2025 then failure 404 ''LEAD_NOT_FOUND''
                  else failure 500 ''INTERNAL_ERROR'', d)
             | Inr (updatedLead, d') \<Rightarrow> (ok 200 (LeadData updatedLead), d'))
        | _ \<Rightarrow> (failure 500 ''INTERNAL_ERROR'', d))"

section \<open>GET /api/stats (server.js, lines 380 to 491)\<close>

text \<open>The \<open>reduce\<close> that turns the groups into an object: \<open>acc[key] = count\<close>, where a
  \<open>null\<close> key is the property \<open>null\<close>.\<close>

definition property_key :: "string option \<Rightarrow> string" where
  "property_key k = (case k of None \<Rightarrow> ''null'' | Some s \<Rightarrow> s)"

definition reduce_counts :: "(string option \<times> nat) list \<Rightarrow> (string \<times> nat) list" where
  "reduce_counts groups = fold (\<lambda>(k, n) acc. AList.update (property_key k) n acc) groups []"

definition get_stats :: "env \<Rightarrow> request \<Rightarrow> db \<Rightarrow> response" where
  "get_stats e req d =
     (if unauthorized e req then failure 401 ''UNAUTHORIZED''
      else
        case (lead_count e d (\<lambda>l. True),
              lead_count e d (\<lambda>l. midnight e \<le> dataCaptura l),
              lead_count e d (\<lambda>l. now e - 7 * 24 * 60 * 60 * 1000 \<le> dataCaptura l),
              lead_count e d (\<lambda>l. now e - 30 * 24 * 60 * 60 * 1000 \<le> dataCaptura l),
              lead_groupBy e d (\<lambda>l. Some (status l)) (\<lambda>l. True),
              lead_groupBy e d origem (\<lambda>l. True),
              lead_groupBy e d utmSource (\<lambda>l. utmSource l \<noteq> None)) of
          (Inr n, Inr hoje, Inr semana, Inr mes, Inr statusStats, Inr origemStats, Inr utmStats) \<Rightarrow>
            ok 200 (StatsData
              \<lparr>resumo_total = n, resumo_hoje = hoje, resumo_semana = semana, resumo_mes = mes,
               porStatus = reduce_counts statusStats,
               porOrigem = reduce_counts origemStats,
               porUtmSource = reduce_counts utmStats\<rparr>)
        | _ \<Rightarrow> failure 500 ''INTERNAL_ERROR'')"

section \<open>POST /api/leads/:leadId/conversao (server.js, lines 494 to 537)\<close>

text \<open>
  The two writes follow each other with no transaction around them: the conversion is
  created in the store, then the lead is updated; whatever is thrown is caught by one
  catch block, which answers 500 for every error.
\<close>

definition post_conversao :: "env \<Rightarrow> string \<Rightarrow> request \<Rightarrow> db \<Rightarrow> response \<times> db" where
  "post_conversao e i req d =
     (if unauthorized e req then (failure 401 ''UNAUTHORIZED'', d)
      else
        case body req ''tipo'' of
          JStr tipo_s \<Rightarrow>
            if \<not> is_text (body req ''descricao'') then (failure 500 ''INTERNAL_ERROR'', d)
            else
              (case conversao_create e d
                 \<lparr>conversao_id = new_id e,
                  leadId = i,
                  tipo = tipo_s,
                  valor = (if js_truthy (body req ''valor'')
                           then Some (ParseFloat (body req ''valor'')) else None),
                  descricao = text_of (body req ''descricao''),
                  dataConversao = now e\<rparr> of
                 Inl err \<Rightarrow> (failure 500 ''INTERNAL_ERROR'', d)
               | Inr (conv, d1) \<Rightarrow>
                   (case lead_update e d1 i ''convertido'' of
                      Inl err \<Rightarrow> (failure 500 ''INTERNAL_ERROR'', d1)
                    | Inr (l, d2) \<Rightarrow> (ok 201 (ConversaoData conv), d2)))
        | _ \<Rightarrow> (failure 500 ''INTERNAL_ERROR'', d))"

section \<open>GET /health and the router\<close>

definition health :: "env \<Rightarrow> response" where
  "health e =
     (if QueryRaw \<in> set (unavailable e)
      then \<lparr>http_status = 500, success = False, code = None, data = Database ''disconnected''\<rparr>
      else ok 200 (Database ''connected''))"

text \<open>The routes in the order they are registered; \<open>Unmatched\<close> is any other method and
  path, answered by the last middleware.\<close>

datatype route =
  Health | PostLeads | GetLeads | GetLead string | PatchStatus string | GetStats
  | PostConversao string | Unmatched

fun handle :: "env \<Rightarrow> route \<Rightarrow> request \<Rightarrow> db \<Rightarrow> response \<times> db" where
  "handle e Health req d = (health e, d)"
| "handle e PostLeads req d = post_leads e req d"
| "handle e GetLeads req d = (get_leads e req d, d)"
| "handle e (GetLead i) req d = (get_lead e i req d, d)"
| "handle e (PatchStatus i) req d = patch_status e i req d"
| "handle e GetStats req d = (get_stats e req d, d)"
| "handle e (PostConversao i) req d = post_conversao e i req d"
| "handle e Unmatched req d = (failure 404 ''ENDPOINT_NOT_FOUND'', d)"

section \<open>Sequences of requests and the email invariant\<close>

text \<open>The store after a sequence of requests handled one after the other.\<close>

fun run :: "(env \<times> route \<times> request) list \<Rightarrow> db \<Rightarrow> db" where
  "run [] d = d"
| "run ((e, r, req) # ops) d = run ops (snd (handle e r req d))"

text \<open>
  The invariant of the leads: no two stored emails are equal when letter case is ignored
  (\<open>email_unique\<close>), which the handlers keep because every stored email is in lower case
  (\<open>emails_lowercase\<close>) and the unique index compares the stored strings.
\<close>

definition email_unique :: "db \<Rightarrow> bool" where
  "email_unique d = distinct (map (\<lambda>l. toLowerCase (email l)) (leads d))"

definition emails_lowercase :: "db \<Rightarrow> bool" where
  "emails_lowercase d = list_all (\<lambda>l. toLowerCase (email l) = email l) (leads d)"

text \<open>A request whose body passes the four validations of lines 93 to 123.\<close>

definition passes_validation :: "request \<Rightarrow> bool" where
  "passes_validation req =
     (js_truthy (sanitizeInput (body req ''nome''))
      \<and> js_truthy (sanitizeInput (body req ''email''))
      \<and> js_truthy (sanitizeInput (body req ''telefone''))
      \<and> \<not> length_lt (sanitizeInput (body req ''nome'')) 2
      \<and> isValidEmail (sanitizeInput (body req ''email''))
      \<and> isValidPhone (sanitizeInput (body req ''telefone'')))"

section \<open>Concrete requests and stores\<close>

text \<open>A JSON object as the function from field names to values, and a request built from
  its query parameters and body fields.\<close>

definition js_object :: "(string \<times> jsval) list \<Rightarrow> string \<Rightarrow> jsval" where
  "js_object kvs k = (case map_of kvs k of Some v \<Rightarrow> v | None \<Rightarrow> JUndefined)"

definition mk_request :: "(string \<times> string) list \<Rightarrow> (string \<times> jsval) list \<Rightarrow> request" where
  "mk_request q b =
     \<lparr>query = map_of q, body = js_object b, header = (\<lambda>h. None), req_ip = Some ''203.0.113.7''\<rparr>"

text \<open>An environment with a configured secret, the clock at \<open>t\<close>, the next identifier
  \<open>i\<close> and the failing storage calls \<open>ops\<close>; rows of equal time keep their stored order.\<close>

definition env_at :: "int \<Rightarrow> string \<Rightarrow> dbop list \<Rightarrow> env" where
  "env_at t i ops =
     \<lparr>API_KEY = Some ''segredo'', now = t, midnight = 0, new_id = i, unavailable = ops,
      tie_break = (\<lambda>l. 0)\<rparr>"

text \<open>The lead stored for \<open>{nome: "Jo", email: "jo@x.com", telefone: "11987654321"}\<close>
  captured at time 1000 with identifier \<open>L1\<close>.\<close>

definition lead_jo :: lead where
  "lead_jo =
     \<lparr>lead_id = ''L1'', nome = ''Jo'', email = ''jo@x.com'', telefone = ''11987654321'',
      origem = Some ''website'', status = ''novo'', utmSource = None, utmMedium = None,
      utmCampaign = None, utmContent = None, utmTerm = None, ip = Some ''203.0.113.7'',
      userAgent = None, referer = None, dataCaptura = 1000, dataAtualizacao = 1000\<rparr>"

definition db_empty :: db where
  "db_empty = \<lparr>leads = [], conversoes = []\<rparr>"

definition db_jo :: db where
  "db_jo = \<lparr>leads = [lead_jo], conversoes = []\<rparr>"

definition admin_key :: "(string \<times> string) list" where
  "admin_key = [(''key'', ''mente-milionaria-2024'')]"

text \<open>Twenty-five leads, the \<open>k\<close>-th captured at time \<open>k\<close>, stored in the order of capture.\<close>

definition lead_n :: "nat \<Rightarrow> lead" where
  "lead_n k =
     lead_jo\<lparr>lead_id := show_nat k, email := show_nat k @ ''@x.com'', dataCaptura := int k,
             dataAtualizacao := int k\<rparr>"


section \<open>Response statuses\<close>

lemma failure_status [simp]: "http_status (failure st c) = st"
  by (simp add: failure_def)

lemma ok_status [simp]: "http_status (ok st p) = st"
  by (simp add: ok_def)

lemma admin_key_authorized [simp]: "\<not> unauthorized e (mk_request admin_key b)"
  by (simp add: unauthorized_def mk_request_def admin_key_def)

section \<open>The email pattern\<close>

text \<open>The test of the model holds exactly for the strings the regular expression
  matches: a local part, \<open>@\<close>, and a domain with a dot inside, all three parts non-empty
  and free of white space and \<open>@\<close>.\<close>

lemma regex_test_matches:
  "regex_test s \<longleftrightarrow>
     (\<exists>a b c. s = a @ ''@'' @ b @ ''.'' @ c \<and> a \<noteq> [] \<and> b \<noteq> [] \<and> c \<noteq> []
        \<and> list_all email_char a \<and> list_all email_char b \<and> list_all email_char c)"
proof
  let ?P = "\<lambda>c. c \<noteq> CHR ''@''"
  assume r: "regex_test s"
  then obtain x dom where rest: "dropWhile ?P s = x # dom"
    by (cases "dropWhile ?P s") (simp_all add: regex_test_def)
  from r rest have loc: "takeWhile ?P s \<noteq> []" "list_all email_char (takeWhile ?P s)"
    and dm: "list_all email_char dom" and dot: "CHR ''.'' \<in> set (butlast (tl dom))"
    by (simp_all add: regex_test_def Let_def)
  have x: "x = CHR ''@''" using rest hd_dropWhile [of ?P s] by simp
  have s: "s = takeWhile ?P s @ x # dom"
    using rest takeWhile_dropWhile_id [of ?P s] by simp
  from dot obtain u v where uv: "butlast (tl dom) = u @ CHR ''.'' # v"
    by (auto dest: split_list)
  then have ne: "tl dom \<noteq> []" by auto
  then have "dom \<noteq> []" by auto
  then have d1: "dom = hd dom # tl dom" by simp
  from ne have "tl dom = butlast (tl dom) @ [last (tl dom)]" by simp
  with uv have d2: "tl dom = u @ CHR ''.'' # v @ [last (tl dom)]" by simp
  from d1 d2 have d3: "dom = (hd dom # u) @ ''.'' @ (v @ [last (tl dom)])" by simp
  from dm have "list_all email_char ((hd dom # u) @ ''.'' @ (v @ [last (tl dom)]))"
    by (subst d3 [symmetric])
  then have "list_all email_char (hd dom # u)" "list_all email_char (v @ [last (tl dom)])"
    by simp_all
  moreover have "s = takeWhile ?P s @ ''@'' @ (hd dom # u) @ ''.'' @ (v @ [last (tl dom)])"
    using s x d3 by simp
  ultimately show "\<exists>a b c. s = a @ ''@'' @ b @ ''.'' @ c \<and> a \<noteq> [] \<and> b \<noteq> [] \<and> c \<noteq> []
        \<and> list_all email_char a \<and> list_all email_char b \<and> list_all email_char c"
    using loc by blast
next
  let ?P = "\<lambda>c. c \<noteq> CHR ''@''"
  assume "\<exists>a b c. s = a @ ''@'' @ b @ ''.'' @ c \<and> a \<noteq> [] \<and> b \<noteq> [] \<and> c \<noteq> []
        \<and> list_all email_char a \<and> list_all email_char b \<and> list_all email_char c"
  then obtain a b c where s: "s = a @ ''@'' @ b @ ''.'' @ c"
    and ne: "a \<noteq> []" "b \<noteq> []" "c \<noteq> []"
    and ok: "list_all email_char a" "list_all email_char b" "list_all email_char c" by blast
  from ok(1) have noat: "\<forall>x\<in>set a. ?P x" by (simp add: list_all_iff email_char_def)
  have tw: "takeWhile ?P s = a" using s noat by (simp add: takeWhile_append2)
  have dw: "dropWhile ?P s = CHR ''@'' # (b @ ''.'' @ c)"
    using s noat by (simp add: dropWhile_append2)
  have dotc: "email_char (CHR ''.'')" by (simp add: email_char_def js_space_def)
  have "tl (b @ ''.'' @ c) = tl b @ ''.'' @ c" using ne(2) by (cases b) simp_all
  moreover have "butlast (tl b @ ''.'' @ c) = tl b @ ''.'' @ butlast c"
    using ne(3) by (simp add: butlast_append)
  ultimately have "CHR ''.'' \<in> set (butlast (tl (b @ ''.'' @ c)))" by simp
  with tw dw ne ok dotc show "regex_test s"
    by (simp add: regex_test_def)
qed

section \<open>Phone validation\<close>

text \<open>
  C7. \<open>isValidPhone\<close> is true exactly for a string whose digits, all other characters
  removed, either start with \<open>55\<close> and number 10 to 11 after these two, or do not start
  with \<open>55\<close> and number 10 to 11. It is false for every value that is not a string and
  for the empty string, and \<open>5511987654321\<close> is valid.
\<close>

theorem isValidPhone_digit_count:
  "isValidPhone v =
     (case v of
        JStr s \<Rightarrow>
          (startsWith (filter is_digit s) ''55'' \<and> length (filter is_digit s) - 2 \<in> {10, 11})
          \<or> (\<not> startsWith (filter is_digit s) ''55'' \<and> length (filter is_digit s) \<in> {10, 11})
      | _ \<Rightarrow> False)
   \<and> isValidPhone (JStr ''5511987654321'')
   \<and> \<not> isValidPhone (JStr '''')"
proof (intro conjI)
  show "isValidPhone v =
     (case v of
        JStr s \<Rightarrow>
          (startsWith (filter is_digit s) ''55'' \<and> length (filter is_digit s) - 2 \<in> {10, 11})
          \<or> (\<not> startsWith (filter is_digit s) ''55'' \<and> length (filter is_digit s) \<in> {10, 11})
      | _ \<Rightarrow> False)"
  proof (cases v)
    case (JStr s)
    show ?thesis
    proof (cases "s = []")
      case True
      with JStr show ?thesis by (simp add: isValidPhone_def startsWith_def)
    next
      case False
      with JStr show ?thesis
        by (auto simp: isValidPhone_def Let_def)
    qed
  qed (simp_all add: isValidPhone_def)
  show "isValidPhone (JStr ''5511987654321'')"
    by (simp add: isValidPhone_def startsWith_def is_digit_def)
  show "\<not> isValidPhone (JStr '''')"
    by (simp add: isValidPhone_def)
qed

section \<open>Status update\<close>

text \<open>
  C4. When the \<open>status\<close> of the body is none of the five values \<open>novo\<close>, \<open>contatado\<close>,
  \<open>interessado\<close>, \<open>convertido\<close>, \<open>descartado\<close> (absent or not a string included), the
  status update leaves the store as it was, whatever the state of the storage client,
  and a caller that passed the access check is answered 400 \<open>INVALID_STATUS\<close>.
\<close>

theorem patch_status_invalid:
  assumes "body req ''status'' \<notin> {JStr ''novo'', JStr ''contatado'', JStr ''interessado'',
             JStr ''convertido'', JStr ''descartado''}"
  shows "snd (patch_status e i req d) = d
       \<and> fst (patch_status e i req d) =
           (if unauthorized e req then failure 401 ''UNAUTHORIZED''
            else failure 400 ''INVALID_STATUS'')"
proof -
  have "\<not> js_includes validStatuses (body req ''status'')"
    using assms by (auto simp: js_includes_def validStatuses_def split: jsval.splits)
  then show ?thesis by (simp add: patch_status_def)
qed

theorem patch_status_invalid_witness:
  "patch_status (env_at 2000 ''X'' []) ''L1''
     (mk_request admin_key [(''status'', JStr ''arquivado'')]) db_jo
   = (failure 400 ''INVALID_STATUS'', db_jo)
   \<and> patch_status (env_at 2000 ''X'' []) ''L1'' (mk_request admin_key []) db_jo
   = (failure 400 ''INVALID_STATUS'', db_jo)"
proof -
  have a: "body (mk_request admin_key [(''status'', JStr ''arquivado'')]) ''status''
      \<notin> {JStr ''novo'', JStr ''contatado'', JStr ''interessado'', JStr ''convertido'',
          JStr ''descartado''}"
    by (simp add: mk_request_def js_object_def)
  have b: "body (mk_request admin_key []) ''status''
      \<notin> {JStr ''novo'', JStr ''contatado'', JStr ''interessado'', JStr ''convertido'',
          JStr ''descartado''}"
    by (simp add: mk_request_def js_object_def)
  show ?thesis
    using patch_status_invalid [OF a, of "env_at 2000 ''X'' []" "''L1''" db_jo]
      patch_status_invalid [OF b, of "env_at 2000 ''X'' []" "''L1''" db_jo]
    by (simp add: prod_eq_iff)
qed

section \<open>Access check\<close>

lemma get_leads_401: "(http_status (get_leads e req d) = 401) = unauthorized e req"
  by (simp add: get_leads_def Let_def split: sum.splits prod.splits)

lemma get_lead_401: "(http_status (get_lead e i req d) = 401) = unauthorized e req"
  by (simp add: get_lead_def split: sum.splits option.splits)

lemma patch_status_401: "(http_status (fst (patch_status e i req d)) = 401) = unauthorized e req"
  by (simp add: patch_status_def split: sum.splits jsval.splits prod.splits)

lemma get_stats_401: "(http_status (get_stats e req d) = 401) = unauthorized e req"
  by (simp add: get_stats_def split: sum.splits prod.splits)

lemma post_conversao_401:
  "(http_status (fst (post_conversao e i req d)) = 401) = unauthorized e req"
  by (simp add: post_conversao_def split: sum.splits jsval.splits prod.splits)

lemma post_leads_check_key:
  "post_leads_check e (req\<lparr>query := q\<rparr>) d = post_leads_check e req d"
  by (simp add: post_leads_check_def)

lemma post_leads_create_key:
  "post_leads_create e (req\<lparr>query := q\<rparr>) d = post_leads_create e req d"
proof -
  have h: "\<And>n. header_or_null (req\<lparr>query := q\<rparr>) n = header_or_null req n"
    by (simp add: header_or_null_def)
  have b: "body (req\<lparr>query := q\<rparr>) = body req" "req_ip (req\<lparr>query := q\<rparr>) = req_ip req"
    by simp_all
  show ?thesis
    unfolding post_leads_create_def lead_data_def lead_data_accepted_def h b ..
qed

lemma post_leads_key: "post_leads e (req\<lparr>query := q\<rparr>) d = post_leads e req d"
  unfolding post_leads_def post_leads_interleaved_def post_leads_check_key
    post_leads_create_key ..

lemma post_leads_check_not_401:
  "post_leads_check e req d = Inr (Some r) \<Longrightarrow> http_status r \<noteq> 401"
  by (auto simp: post_leads_check_def Let_def
      split: if_splits jsval.splits sum.splits option.splits)

lemma post_leads_create_not_401:
  "post_leads_create e req d = Inr (r, d') \<Longrightarrow> http_status r \<noteq> 401"
  by (auto simp: post_leads_create_def Let_def
      split: if_splits jsval.splits sum.splits prod.splits)

lemma post_leads_catch_not_401: "http_status (post_leads_catch err) \<noteq> 401"
  by (simp add: post_leads_catch_def)

lemma post_leads_not_401: "http_status (fst (post_leads e req d)) \<noteq> 401"
  by (auto simp: post_leads_def post_leads_interleaved_def post_leads_catch_not_401
      split: sum.splits option.splits prod.splits
      dest: post_leads_check_not_401 post_leads_create_not_401)

text \<open>
  C9. On the listing, single lead, status update, statistics and conversion routes the
  answer is 401 exactly when the \<open>key\<close> of the query equals neither the configured
  secret nor \<open>mente-milionaria-2024\<close>. The ingestion route does not read the query at
  all: its result is the same for every query, and it never answers 401.
\<close>

theorem access_gate_uniform:
  "(http_status (fst (handle e GetLeads req d)) = 401) =
     (query req ''key'' \<noteq> API_KEY e \<and> query req ''key'' \<noteq> Some ''mente-milionaria-2024'')
   \<and> (http_status (fst (handle e (GetLead i) req d)) = 401) =
     (query req ''key'' \<noteq> API_KEY e \<and> query req ''key'' \<noteq> Some ''mente-milionaria-2024'')
   \<and> (http_status (fst (handle e (PatchStatus i) req d)) = 401) =
     (query req ''key'' \<noteq> API_KEY e \<and> query req ''key'' \<noteq> Some ''mente-milionaria-2024'')
   \<and> (http_status (fst (handle e GetStats req d)) = 401) =
     (query req ''key'' \<noteq> API_KEY e \<and> query req ''key'' \<noteq> Some ''mente-milionaria-2024'')
   \<and> (http_status (fst (handle e (PostConversao i) req d)) = 401) =
     (query req ''key'' \<noteq> API_KEY e \<and> query req ''key'' \<noteq> Some ''mente-milionaria-2024'')
   \<and> handle e PostLeads (req\<lparr>query := q\<rparr>) d = handle e PostLeads req d
   \<and> http_status (fst (handle e PostLeads req d)) \<noteq> 401"
  by (simp add: get_leads_401 get_lead_401 patch_status_401 get_stats_401 post_conversao_401
      post_leads_key post_leads_not_401 unauthorized_def)

section \<open>Evaluating the handlers on concrete requests\<close>

lemmas request_eval = mk_request_def js_object_def admin_key_def env_at_def db_jo_def db_empty_def
  lead_jo_def

lemmas store_eval = lead_findUnique_email_def lead_findUnique_id_def lead_create_def
  lead_update_def conversao_create_def

lemmas string_eval = sanitizeInput_def trim_def js_space_def toLowerCase_def toLowerCase_char_def
  isValidEmail_def regex_test_def email_char_def isValidPhone_def startsWith_def is_digit_def
  length_lt_def js_or_def is_text_def text_of_def header_or_null_def

lemmas post_leads_eval = post_leads_def post_leads_interleaved_def post_leads_check_def
  post_leads_create_def post_leads_catch_def lead_data_def lead_data_accepted_def

section \<open>Recording a conversion\<close>

text \<open>
  C5. A conversion for a lead that is not stored: the store holds only the lead \<open>L1\<close> and
  the request names \<open>L9\<close>. The conversion row is created all the same, the update of
  the lead then throws the record-not-found error, and the catch block answers 500
  \<open>INTERNAL_ERROR\<close>, not 404 \<open>LEAD_NOT_FOUND\<close>.
\<close>

theorem post_conversao_missing_lead:
  "handle (env_at 2000 ''K1'' []) (PostConversao ''L9'')
     (mk_request admin_key [(''tipo'', JStr ''venda'')]) db_jo
   = (failure 500 ''INTERNAL_ERROR'',
      db_jo\<lparr>conversoes := [\<lparr>conversao_id = ''K1'', leadId = ''L9'', tipo = ''venda'',
                               valor = None, descricao = None, dataConversao = 2000\<rparr>]\<rparr>)"
  by (simp add: post_conversao_def unauthorized_def request_eval store_eval string_eval)

text \<open>
  C1, as stated, fails: the lead \<open>L1\<close> is stored and the second write, the update of the
  lead, is rejected by the store. The conversion row written first stays in the store
  while the lead keeps its status \<open>novo\<close>.
\<close>

theorem post_conversao_not_atomic:
  "post_conversao (env_at 2000 ''K1'' [LeadUpdate]) ''L1''
     (mk_request admin_key [(''tipo'', JStr ''venda'')]) db_jo
   = (failure 500 ''INTERNAL_ERROR'',
      \<lparr>leads = [lead_jo],
       conversoes = [\<lparr>conversao_id = ''K1'', leadId = ''L1'', tipo = ''venda'',
                      valor = None, descricao = None, dataConversao = 2000\<rparr>]\<rparr>)"
  by (simp add: post_conversao_def unauthorized_def request_eval store_eval string_eval)

text \<open>
  C1, amended. For an authorised request on a stored lead, with a \<open>tipo\<close> that is a string,
  a \<open>descricao\<close> that is text or absent and a \<open>valor\<close> that is a number or falsy, the two
  writes happen one after the other:
  when the creation of the conversion fails nothing changes and the answer is 500; when
  it succeeds and the update of the lead fails, the conversion row stays and the leads
  are unchanged, answer 500; when both succeed the answer is 201 with the conversion,
  which is stored, and the lead has status \<open>convertido\<close>.
\<close>

theorem post_conversao_two_writes:
  assumes "\<not> unauthorized e req"
    and "find (\<lambda>l. lead_id l = i) (leads d) = Some l"
    and "body req ''tipo'' = JStr t"
    and "is_text (body req ''descricao'')"
    and "\<not> js_truthy (body req ''valor'') \<or> body req ''valor'' = JNum amount"
  shows "post_conversao e i req d =
     (let row = \<lparr>conversao_id = new_id e, leadId = i, tipo = t,
                 valor = (if js_truthy (body req ''valor'')
                          then Some (ParseFloat (body req ''valor'')) else None),
                 descricao = text_of (body req ''descricao''), dataConversao = now e\<rparr>
      in if ConversaoCreate \<in> set (unavailable e)
            \<or> list_ex (\<lambda>c. conversao_id c = new_id e) (conversoes d)
         then (failure 500 ''INTERNAL_ERROR'', d)
         else if LeadUpdate \<in> set (unavailable e)
         then (failure 500 ''INTERNAL_ERROR'', d\<lparr>conversoes := conversoes d @ [row]\<rparr>)
         else (ok 201 (ConversaoData row),
               \<lparr>leads = map (\<lambda>x. if lead_id x = i
                                  then x\<lparr>status := ''convertido'', dataAtualizacao := now e\<rparr>
                                  else x) (leads d),
                conversoes = conversoes d @ [row]\<rparr>))"
  using assms
  by (simp add: post_conversao_def conversao_create_def lead_update_def Let_def)

theorem post_conversao_two_writes_witness:
  "post_conversao (env_at 2000 ''K1'' []) ''L1''
     (mk_request admin_key [(''tipo'', JStr ''venda''), (''valor'', JNum 97)]) db_jo
   = (ok 201 (ConversaoData
        \<lparr>conversao_id = ''K1'', leadId = ''L1'', tipo = ''venda'',
         valor = Some (ParseFloat (JNum 97)), descricao = None, dataConversao = 2000\<rparr>),
      \<lparr>leads = [lead_jo\<lparr>status := ''convertido'', dataAtualizacao := 2000\<rparr>],
       conversoes = [\<lparr>conversao_id = ''K1'', leadId = ''L1'', tipo = ''venda'',
         valor = Some (ParseFloat (JNum 97)), descricao = None, dataConversao = 2000\<rparr>]\<rparr>)"
proof -
  let ?req = "mk_request admin_key [(''tipo'', JStr ''venda''), (''valor'', JNum 97)]"
  have a: "\<not> unauthorized (env_at 2000 ''K1'' []) ?req" by simp
  have b: "find (\<lambda>l. lead_id l = ''L1'') (leads db_jo) = Some lead_jo"
    by (simp add: db_jo_def lead_jo_def)
  have c: "body ?req ''tipo'' = JStr ''venda''" by (simp add: mk_request_def js_object_def)
  have d: "is_text (body ?req ''descricao'')"
    by (simp add: mk_request_def js_object_def is_text_def)
  have v: "\<not> js_truthy (body ?req ''valor'') \<or> body ?req ''valor'' = JNum 97"
    by (simp add: mk_request_def js_object_def)
  show ?thesis
    using post_conversao_two_writes [OF a b c d v]
    by (simp add: request_eval text_of_def Let_def)
qed

section \<open>Ingestion: the unique index at insert time\<close>

text \<open>
  C2, as stated, fails. Two requests carry the email \<open>jo@x.com\<close>; the look-up of the
  second reads the store before the first has committed (the store is empty) and its
  insert acts on the store that holds the first lead. The answer is 409 \<open>EMAIL_EXISTS\<close>
  with no data, whereas the look-up path on the same store answers with the time the
  first lead was captured.
\<close>

theorem insert_conflict_hides_captured_at:
  "post_leads_interleaved (env_at 2000 ''L2'' [])
     (mk_request [] [(''nome'', JStr ''Jo''), (''email'', JStr ''jo@x.com''),
                     (''telefone'', JStr ''11987654321'')]) db_empty db_jo
     = (\<lparr>http_status = 409, success = False, code = Some ''EMAIL_EXISTS'', data = NoData\<rparr>, db_jo)
   \<and> post_leads (env_at 2000 ''L2'' [])
     (mk_request [] [(''nome'', JStr ''Jo''), (''email'', JStr ''jo@x.com''),
                     (''telefone'', JStr ''11987654321'')]) db_jo
     = (\<lparr>http_status = 409, success = False, code = Some ''EMAIL_EXISTS'',
         data = DataAnterior 1000\<rparr>, db_jo)"
  by (simp add: post_leads_eval request_eval store_eval string_eval failure_def)

text \<open>
  C2, amended. When the look-up found no lead and the creation then meets the unique
  constraint, the answer is 409 with the code \<open>EMAIL_EXISTS\<close>, not an internal error, and
  the store is unchanged; the response has no data, so the time of the earlier capture
  is not in it.
\<close>

theorem insert_conflict_response:
  assumes "post_leads_check e req d0 = Inr None"
    and "post_leads_create e req d = Inl P2002"
  shows "post_leads_interleaved e req d0 d = (failure 409 ''EMAIL_EXISTS'', d)
       \<and> data (fst (post_leads_interleaved e req d0 d)) = NoData"
  using assms
  by (simp add: post_leads_interleaved_def post_leads_catch_def failure_def)

theorem insert_conflict_response_witness:
  "post_leads_interleaved (env_at 2000 ''L2'' [])
     (mk_request [] [(''nome'', JStr ''Ana''), (''email'', JStr ''Jo@X.com''),
                     (''telefone'', JStr ''(11) 98765-4321'')]) db_empty db_jo
     = (failure 409 ''EMAIL_EXISTS'', db_jo)"
proof -
  let ?req = "mk_request [] [(''nome'', JStr ''Ana''), (''email'', JStr ''Jo@X.com''),
                     (''telefone'', JStr ''(11) 98765-4321'')]"
  have a: "post_leads_check (env_at 2000 ''L2'' []) ?req db_empty = Inr None"
    by (simp add: post_leads_eval request_eval store_eval string_eval failure_def)
  have b: "post_leads_create (env_at 2000 ''L2'' []) ?req db_jo = Inl P2002"
    by (simp add: post_leads_eval request_eval store_eval string_eval failure_def)
  show ?thesis
    using insert_conflict_response [OF a b] by simp
qed

section \<open>Ingestion: the row that is stored\<close>

lemma post_leads_check_not_201:
  "post_leads_check e req d = Inr (Some r) \<Longrightarrow> http_status r \<noteq> 201"
  by (auto simp: post_leads_check_def Let_def
      split: if_splits jsval.splits sum.splits option.splits)

lemma post_leads_created:
  assumes "post_leads_interleaved e req d0 d = (r, d')" and "http_status r = 201"
  shows "post_leads_create e req d = Inr (r, d')"
  using assms
  by (auto simp: post_leads_interleaved_def post_leads_catch_def
      split: sum.splits option.splits prod.splits if_splits
      dest: post_leads_check_not_201)

lemma post_leads_create_InrD:
  assumes "post_leads_create e req d = Inr (r, d')"
  shows "\<exists>n m t. sanitizeInput (body req ''nome'') = JStr n
           \<and> sanitizeInput (body req ''email'') = JStr m
           \<and> sanitizeInput (body req ''telefone'') = JStr t
           \<and> lead_data_accepted req
           \<and> lead_create e d (lead_data e req n m t) = Inr (lead_data e req n m t, d')
           \<and> r = ok 201 (LeadSummary (new_id e) (trim n) (trim (toLowerCase m)) (now e))"
proof -
  obtain n m t where nmt: "sanitizeInput (body req ''nome'') = JStr n"
    "sanitizeInput (body req ''email'') = JStr m" "sanitizeInput (body req ''telefone'') = JStr t"
    using assms
    by (cases "sanitizeInput (body req ''nome'')"; cases "sanitizeInput (body req ''email'')";
        cases "sanitizeInput (body req ''telefone'')") (simp_all add: post_leads_create_def)
  have acc: "lead_data_accepted req"
    using assms nmt by (simp add: post_leads_create_def split: if_splits)
  have cr: "lead_create e d (lead_data e req n m t) = Inr (lead_data e req n m t, d')"
    using assms nmt acc
    by (auto simp: post_leads_create_def lead_create_def split: if_splits)
  have "r = ok 201 (LeadSummary (new_id e) (trim n) (trim (toLowerCase m)) (now e))"
    using assms nmt acc cr by (simp add: post_leads_create_def lead_data_def)
  with nmt acc cr show ?thesis by blast
qed

lemma lead_create_InrD:
  "lead_create e d row = Inr (row', d') \<Longrightarrow> row' = row \<and> d' = d\<lparr>leads := leads d @ [row]\<rparr>"
  by (auto simp: lead_create_def split: if_splits)

lemma origem_lead_data:
  assumes "lead_data_accepted req"
  shows "origem (lead_data e req n m t) =
           (if js_truthy (sanitizeInput (body req ''origem''))
            then text_of (sanitizeInput (body req ''origem'')) else Some ''website'')
       \<and> origem (lead_data e req n m t) \<noteq> Some []
       \<and> origem (lead_data e req n m t) \<noteq> None"
proof -
  have "is_text (js_or (sanitizeInput (body req ''origem'')) (JStr ''website''))"
    using assms by (simp add: lead_data_accepted_def)
  then show ?thesis
    by (cases "sanitizeInput (body req ''origem'')")
      (simp_all add: lead_data_def js_or_def is_text_def text_of_def split: if_splits)
qed

text \<open>
  C10. A successful ingestion (answer 201) appends one row to the leads. Its \<open>origem\<close> is
  \<open>website\<close> whenever the sanitised \<open>origem\<close> of the body is falsy (absent, \<open>null\<close>,
  \<open>false\<close>, \<open>0\<close> or the empty string, which is what white space and angle brackets alone
  become) and the sanitised string otherwise; it is never the empty string and never
  \<open>null\<close>.
\<close>

theorem origem_default:
  assumes "post_leads_interleaved e req d0 d = (r, d')" and "http_status r = 201"
  shows "\<exists>row. d' = d\<lparr>leads := leads d @ [row]\<rparr>
           \<and> origem row =
               (if js_truthy (sanitizeInput (body req ''origem''))
                then text_of (sanitizeInput (body req ''origem'')) else Some ''website'')
           \<and> origem row \<noteq> Some []
           \<and> origem row \<noteq> None"
proof -
  have "post_leads_create e req d = Inr (r, d')"
    using assms by (rule post_leads_created)
  then obtain n m t where acc: "lead_data_accepted req"
    and cr: "lead_create e d (lead_data e req n m t) = Inr (lead_data e req n m t, d')"
    using post_leads_create_InrD by blast
  from cr have "d' = d\<lparr>leads := leads d @ [lead_data e req n m t]\<rparr>"
    by (simp add: lead_create_InrD)
  with origem_lead_data [OF acc, of e n m t] show ?thesis by blast
qed

theorem origem_default_witness:
  "origem (last (leads (snd (post_leads (env_at 2000 ''L2'' [])
     (mk_request [] [(''nome'', JStr ''Ana''), (''email'', JStr ''ana@x.com''),
                     (''telefone'', JStr ''11987654321''), (''origem'', JStr ''  <> '')])
     db_jo)))) = Some ''website''
   \<and> origem (last (leads (snd (post_leads (env_at 2000 ''L2'' [])
     (mk_request [] [(''nome'', JStr ''Ana''), (''email'', JStr ''ana@x.com''),
                     (''telefone'', JStr ''11987654321''), (''origem'', JStr ''   '')])
     db_jo)))) = Some ''website''"
proof -
  let ?e = "env_at 2000 ''L2'' []"
  let ?r1 = "mk_request [] [(''nome'', JStr ''Ana''), (''email'', JStr ''ana@x.com''),
                     (''telefone'', JStr ''11987654321''), (''origem'', JStr ''  <> '')]"
  let ?r2 = "mk_request [] [(''nome'', JStr ''Ana''), (''email'', JStr ''ana@x.com''),
                     (''telefone'', JStr ''11987654321''), (''origem'', JStr ''   '')]"
  have s1: "http_status (fst (post_leads ?e ?r1 db_jo)) = 201"
    by (simp add: post_leads_eval request_eval store_eval string_eval)
  have s2: "http_status (fst (post_leads ?e ?r2 db_jo)) = 201"
    by (simp add: post_leads_eval request_eval store_eval string_eval)
  have f1: "\<not> js_truthy (sanitizeInput (body ?r1 ''origem''))"
    by (simp add: request_eval string_eval)
  have f2: "\<not> js_truthy (sanitizeInput (body ?r2 ''origem''))"
    by (simp add: request_eval string_eval)
  have p1: "post_leads_interleaved ?e ?r1 db_jo db_jo
              = (fst (post_leads ?e ?r1 db_jo), snd (post_leads ?e ?r1 db_jo))"
    by (simp add: post_leads_def)
  have p2: "post_leads_interleaved ?e ?r2 db_jo db_jo
              = (fst (post_leads ?e ?r2 db_jo), snd (post_leads ?e ?r2 db_jo))"
    by (simp add: post_leads_def)
  from origem_default [OF p1 s1] f1 obtain row1 where
    "snd (post_leads ?e ?r1 db_jo) = db_jo\<lparr>leads := leads db_jo @ [row1]\<rparr>"
    "origem row1 = Some ''website''" by auto
  moreover from origem_default [OF p2 s2] f2 obtain row2 where
    "snd (post_leads ?e ?r2 db_jo) = db_jo\<lparr>leads := leads db_jo @ [row2]\<rparr>"
    "origem row2 = Some ''website''" by auto
  ultimately show ?thesis by simp
qed

section \<open>Ingestion: the order of the checks\<close>










lemma check_lookup:
  assumes "js_truthy (sanitizeInput (body req ''nome''))"
    "js_truthy (sanitizeInput (body req ''email''))"
    "js_truthy (sanitizeInput (body req ''telefone''))"
    "\<not> length_lt (sanitizeInput (body req ''nome'')) 2"
    "isValidEmail (sanitizeInput (body req ''email''))"
    "isValidPhone (sanitizeInput (body req ''telefone''))"
    "sanitizeInput (body req ''email'') = JStr addr"
    "LeadFindUnique \<notin> set (unavailable e)"
  shows "post_leads_check e req d =
     (case find (\<lambda>l. email l = toLowerCase addr) (leads d) of
        Some l \<Rightarrow> Inr (Some ((failure 409 ''EMAIL_EXISTS'')\<lparr>data := DataAnterior (dataCaptura l)\<rparr>))
      | None \<Rightarrow> Inr None)"
  using assms
  by (simp add: post_leads_check_def Let_def lead_findUnique_email_def split: option.splits)

lemma interleaved_responded:
  "post_leads_check e req d0 = Inr (Some r) \<Longrightarrow> post_leads_interleaved e req d0 d = (r, d)"
  by (simp add: post_leads_interleaved_def)







section \<open>Lower case, trimming and the stored email\<close>

lemma toLowerCase_char_space [simp]: "js_space (toLowerCase_char c) = js_space c"
  by (simp add: toLowerCase_char_def js_space_def)

lemma toLowerCase_char_angle [simp]:
  "(toLowerCase_char c = CHR ''<'') = (c = CHR ''<'')"
  "(toLowerCase_char c = CHR ''>'') = (c = CHR ''>'')"
  by (simp_all add: toLowerCase_char_def)

lemma toLowerCase_char_idem [simp]: "toLowerCase_char (toLowerCase_char c) = toLowerCase_char c"
  by (simp add: toLowerCase_char_def)


lemma toLowerCase_idem [simp]: "toLowerCase (toLowerCase s) = toLowerCase s"
  by (simp add: toLowerCase_def)

lemma dropWhile_space_lower:
  "dropWhile js_space (map toLowerCase_char s) = map toLowerCase_char (dropWhile js_space s)"
  by (induction s) simp_all

lemma toLowerCase_trim: "toLowerCase (trim s) = trim (toLowerCase s)"
  by (simp add: toLowerCase_def trim_def rev_map dropWhile_space_lower)

lemma toLowerCase_strip:
  "toLowerCase (filter (\<lambda>c. c \<noteq> CHR ''<'' \<and> c \<noteq> CHR ''>'') s)
     = filter (\<lambda>c. c \<noteq> CHR ''<'' \<and> c \<noteq> CHR ''>'') (toLowerCase s)"
  by (induction s) (simp_all add: toLowerCase_def)

lemma trim_no_space:
  assumes "\<not> list_ex js_space s"
  shows "trim s = s"
proof (cases s rule: rev_cases)
  case Nil
  then show ?thesis by (simp add: trim_def)
next
  case (snoc ys y)
  with assms have y: "\<not> js_space y" by simp
  from assms have "s = [] \<or> \<not> js_space (hd s)" by (cases s) simp_all
  then have front: "dropWhile js_space s = s" by (cases s) simp_all
  from snoc y have "dropWhile js_space (rev s) = rev s" by simp
  with front show ?thesis by (simp add: trim_def)
qed

lemma regex_test_no_space:
  assumes "regex_test s"
  shows "\<not> list_ex js_space s"
proof -
  let ?P = "\<lambda>c. c \<noteq> CHR ''@''"
  from assms obtain x dom where rest: "dropWhile ?P s = x # dom"
    by (cases "dropWhile ?P s") (simp_all add: regex_test_def)
  from assms rest have loc: "list_all email_char (takeWhile ?P s)"
    and dm: "list_all email_char dom"
    by (simp_all add: regex_test_def Let_def)
  have "x = CHR ''@''"
    using rest hd_dropWhile [of ?P s] by simp
  then have x: "\<not> js_space x" by (simp add: js_space_def)
  have "takeWhile ?P s @ dropWhile ?P s = s" by (rule takeWhile_dropWhile_id)
  with rest have "s = takeWhile ?P s @ x # dom" by simp
  then have "list_ex js_space s = list_ex js_space (takeWhile ?P s @ x # dom)" by simp
  also have "\<dots> = (list_ex js_space (takeWhile ?P s) \<or> js_space x \<or> list_ex js_space dom)"
    by (auto simp: list_ex_iff)
  finally show ?thesis
    using loc dm x by (auto simp: list_ex_iff list_all_iff email_char_def)
qed

lemma lower_no_space: "\<not> list_ex js_space s \<Longrightarrow> \<not> list_ex js_space (toLowerCase s)"
  by (simp add: toLowerCase_def list_ex_iff)

lemma stored_email_is_key:
  assumes "isValidEmail (JStr m)"
  shows "trim (toLowerCase m) = toLowerCase m"
  using assms by (simp add: isValidEmail_def regex_test_no_space lower_no_space trim_no_space)

lemma sanitize_lower:
  assumes "toLowerCase a1 = toLowerCase a2"
    and "sanitizeInput (JStr a1) = JStr m1" and "sanitizeInput (JStr a2) = JStr m2"
  shows "toLowerCase m1 = toLowerCase m2"
proof -
  have "toLowerCase m1 = filter (\<lambda>c. c \<noteq> CHR ''<'' \<and> c \<noteq> CHR ''>'') (trim (toLowerCase a1))"
    using assms(2) by (auto simp: sanitizeInput_def toLowerCase_strip toLowerCase_trim)
  moreover have "toLowerCase m2 = filter (\<lambda>c. c \<noteq> CHR ''<'' \<and> c \<noteq> CHR ''>'') (trim (toLowerCase a2))"
    using assms(3) by (auto simp: sanitizeInput_def toLowerCase_strip toLowerCase_trim)
  ultimately show ?thesis using assms(1) by simp
qed

section \<open>What a handler does to the stored emails\<close>

lemma check_None_valid:
  assumes "post_leads_check e req d0 = Inr None"
  shows "passes_validation req"
  using assms
  by (simp add: post_leads_check_def passes_validation_def Let_def split: if_splits)

lemma lead_data_fields [simp]:
  "email (lead_data e req n m t) = trim (toLowerCase m)"
  "dataCaptura (lead_data e req n m t) = now e"
  "lead_id (lead_data e req n m t) = new_id e"
  by (simp_all add: lead_data_def)

lemma post_leads_interleaved_cases:
  "snd (post_leads_interleaved e req d0 d) = d
   \<or> (\<exists>n m t. sanitizeInput (body req ''email'') = JStr m \<and> isValidEmail (JStr m)
        \<and> snd (post_leads_interleaved e req d0 d) = d\<lparr>leads := leads d @ [lead_data e req n m t]\<rparr>
        \<and> \<not> list_ex (\<lambda>l. email l = trim (toLowerCase m)) (leads d))"
proof (cases "post_leads_check e req d0")
  case (Inl err)
  then show ?thesis by (simp add: post_leads_interleaved_def)
next
  case (Inr ro)
  show ?thesis
  proof (cases ro)
    case (Some r)
    with Inr show ?thesis by (simp add: post_leads_interleaved_def)
  next
    case None
    with Inr have chk: "post_leads_check e req d0 = Inr None" by simp
    then have pv: "passes_validation req" by (rule check_None_valid)
    show ?thesis
    proof (cases "post_leads_create e req d")
      case (Inl err)
      with chk show ?thesis by (simp add: post_leads_interleaved_def)
    next
      case (Inr p)
      obtain r d' where p: "p = (r, d')" by (cases p)
      with Inr have cr: "post_leads_create e req d = Inr (r, d')" by simp
      then obtain n m t where m: "sanitizeInput (body req ''email'') = JStr m"
        and lc: "lead_create e d (lead_data e req n m t) = Inr (lead_data e req n m t, d')"
        using post_leads_create_InrD by blast
      from lc have d': "d' = d\<lparr>leads := leads d @ [lead_data e req n m t]\<rparr>"
        by (simp add: lead_create_InrD)
      from lc have fresh: "\<not> list_ex (\<lambda>l. email l = trim (toLowerCase m)) (leads d)"
        by (auto simp: lead_create_def list_ex_iff split: if_splits)
      from pv m have "isValidEmail (JStr m)" by (simp add: passes_validation_def)
      moreover have "snd (post_leads_interleaved e req d0 d) = d'"
        using chk cr by (simp add: post_leads_interleaved_def)
      ultimately show ?thesis using m d' fresh by blast
    qed
  qed
qed

lemma lead_update_emails:
  assumes "lead_update e d i st = Inr (l', d')"
  shows "map (\<lambda>l. (email l, dataCaptura l)) (leads d') = map (\<lambda>l. (email l, dataCaptura l)) (leads d)"
    and "conversoes d' = conversoes d"
proof -
  from assms have d': "d' = d\<lparr>leads := map (\<lambda>x. if lead_id x = i
      then x\<lparr>status := st, dataAtualizacao := now e\<rparr> else x) (leads d)\<rparr>"
    by (auto simp: lead_update_def split: if_splits option.splits)
  then show "map (\<lambda>l. (email l, dataCaptura l)) (leads d') = map (\<lambda>l. (email l, dataCaptura l)) (leads d)"
    by (simp add: comp_def if_distrib cong: if_cong)
  from d' show "conversoes d' = conversoes d" by simp
qed

lemma patch_status_emails:
  "map (\<lambda>l. (email l, dataCaptura l)) (leads (snd (patch_status e i req d)))
     = map (\<lambda>l. (email l, dataCaptura l)) (leads d)"
proof -
  have "snd (patch_status e i req d) = d
    \<or> (\<exists>st l' d'. lead_update e d i st = Inr (l', d') \<and> snd (patch_status e i req d) = d')"
    by (auto simp: patch_status_def split: if_splits jsval.splits sum.splits prod.splits)
  then show ?thesis
    using lead_update_emails(1) by (metis (no_types, lifting))
qed

lemma conversao_create_leads:
  "conversao_create e d row = Inr (c, d1) \<Longrightarrow> leads d1 = leads d"
  by (auto simp: conversao_create_def split: if_splits)

lemma post_conversao_emails:
  "map (\<lambda>l. (email l, dataCaptura l)) (leads (snd (post_conversao e i req d)))
     = map (\<lambda>l. (email l, dataCaptura l)) (leads d)"
proof -
  have "snd (post_conversao e i req d) = d
    \<or> (\<exists>row c d1. conversao_create e d row = Inr (c, d1)
          \<and> (snd (post_conversao e i req d) = d1
             \<or> (\<exists>l d2. lead_update e d1 i ''convertido'' = Inr (l, d2)
                   \<and> snd (post_conversao e i req d) = d2)))"
    by (auto simp: post_conversao_def split: if_splits jsval.splits sum.splits prod.splits)
  then show ?thesis
    using conversao_create_leads lead_update_emails(1) by (metis (no_types, lifting))
qed

section \<open>Email uniqueness over sequences of requests\<close>

lemma find_map_key:
  "find (\<lambda>p. fst p = k) (map (\<lambda>l. (email l, dataCaptura l)) xs)
     = map_option (\<lambda>l. (email l, dataCaptura l)) (find (\<lambda>l. email l = k) xs)"
  by (induction xs) simp_all

lemma find_append_Some:
  "find P xs = Some x \<Longrightarrow> find P (xs @ ys) = Some x"
  by (induction xs) (auto split: if_splits)

lemma find_append_None:
  "find P xs = None \<Longrightarrow> find P (xs @ ys) = find P ys"
  by (induction xs) (auto split: if_splits)

lemma find_Some_member:
  "find P xs = Some x \<Longrightarrow> x \<in> set xs \<and> P x"
  by (induction xs) (auto split: if_splits)

lemma handle_step:
  "map (\<lambda>l. (email l, dataCaptura l)) (leads (snd (handle e r req d)))
     = map (\<lambda>l. (email l, dataCaptura l)) (leads d)
   \<or> (\<exists>k t. map (\<lambda>l. (email l, dataCaptura l)) (leads (snd (handle e r req d)))
              = map (\<lambda>l. (email l, dataCaptura l)) (leads d) @ [(k, t)]
           \<and> k \<notin> set (map email (leads d)) \<and> toLowerCase k = k)"
proof (cases r)
  case PostLeads
  from post_leads_interleaved_cases [of e req d d]
  show ?thesis
  proof
    assume "snd (post_leads_interleaved e req d d) = d"
    with PostLeads show ?thesis by (simp add: post_leads_def)
  next
    assume "\<exists>n m t. sanitizeInput (body req ''email'') = JStr m \<and> isValidEmail (JStr m)
        \<and> snd (post_leads_interleaved e req d d) = d\<lparr>leads := leads d @ [lead_data e req n m t]\<rparr>
        \<and> \<not> list_ex (\<lambda>l. email l = trim (toLowerCase m)) (leads d)"
    then obtain n m t where v: "isValidEmail (JStr m)"
      and d': "snd (post_leads_interleaved e req d d) = d\<lparr>leads := leads d @ [lead_data e req n m t]\<rparr>"
      and fresh: "\<not> list_ex (\<lambda>l. email l = trim (toLowerCase m)) (leads d)"
      by blast
    from v have key: "trim (toLowerCase m) = toLowerCase m" by (rule stored_email_is_key)
    have "map (\<lambda>l. (email l, dataCaptura l)) (leads (snd (handle e r req d)))
        = map (\<lambda>l. (email l, dataCaptura l)) (leads d) @ [(toLowerCase m, now e)]"
      using PostLeads d' key by (simp add: post_leads_def)
    moreover have "toLowerCase m \<notin> set (map email (leads d))"
      using fresh key by (auto simp: list_ex_iff)
    moreover have "toLowerCase (toLowerCase m) = toLowerCase m" by simp
    ultimately show ?thesis by blast
  qed
next
  case (PatchStatus i)
  then show ?thesis by (simp add: patch_status_emails)
next
  case (PostConversao i)
  then show ?thesis by (simp add: post_conversao_emails)
qed simp_all

lemma handle_invariant:
  assumes "distinct (map email (leads d))" and "emails_lowercase d"
  shows "distinct (map email (leads (snd (handle e r req d))))
       \<and> emails_lowercase (snd (handle e r req d))"
proof -
  let ?d' = "snd (handle e r req d)"
  have low: "emails_lowercase x = (\<forall>k\<in>set (map email (leads x)). toLowerCase k = k)" for x
    by (auto simp: emails_lowercase_def list_all_iff)
  from handle_step [of e r req d]
  have "map email (leads ?d') = map email (leads d)
      \<or> (\<exists>k. map email (leads ?d') = map email (leads d) @ [k]
            \<and> k \<notin> set (map email (leads d)) \<and> toLowerCase k = k)"
  proof
    assume "map (\<lambda>l. (email l, dataCaptura l)) (leads ?d')
       = map (\<lambda>l. (email l, dataCaptura l)) (leads d)"
    then have "map fst (map (\<lambda>l. (email l, dataCaptura l)) (leads ?d'))
       = map fst (map (\<lambda>l. (email l, dataCaptura l)) (leads d))" by simp
    then show ?thesis by (simp add: comp_def)
  next
    assume "\<exists>k t. map (\<lambda>l. (email l, dataCaptura l)) (leads ?d')
              = map (\<lambda>l. (email l, dataCaptura l)) (leads d) @ [(k, t)]
           \<and> k \<notin> set (map email (leads d)) \<and> toLowerCase k = k"
    then obtain k t where eq: "map (\<lambda>l. (email l, dataCaptura l)) (leads ?d')
              = map (\<lambda>l. (email l, dataCaptura l)) (leads d) @ [(k, t)]"
      and k: "k \<notin> set (map email (leads d))" "toLowerCase k = k" by blast
    from eq have "map fst (map (\<lambda>l. (email l, dataCaptura l)) (leads ?d'))
       = map fst (map (\<lambda>l. (email l, dataCaptura l)) (leads d) @ [(k, t)])" by simp
    then have "map email (leads ?d') = map email (leads d) @ [k]" by (simp add: comp_def)
    with k show ?thesis by blast
  qed
  then show ?thesis
  proof
    assume "map email (leads ?d') = map email (leads d)"
    with assms show ?thesis by (simp add: low)
  next
    assume "\<exists>k. map email (leads ?d') = map email (leads d) @ [k]
            \<and> k \<notin> set (map email (leads d)) \<and> toLowerCase k = k"
    then obtain k where "map email (leads ?d') = map email (leads d) @ [k]"
      "k \<notin> set (map email (leads d))" "toLowerCase k = k" by blast
    with assms show ?thesis by (auto simp: low)
  qed
qed

text \<open>The same holds when other requests commit between the look-up and the insert.\<close>

lemma interleaved_invariant:
  assumes "distinct (map email (leads d))" and "emails_lowercase d"
  shows "distinct (map email (leads (snd (post_leads_interleaved e req d0 d))))
       \<and> emails_lowercase (snd (post_leads_interleaved e req d0 d))"
  using post_leads_interleaved_cases [of e req d0 d]
proof
  assume "snd (post_leads_interleaved e req d0 d) = d"
  with assms show ?thesis by simp
next
  assume "\<exists>n m t. sanitizeInput (body req ''email'') = JStr m \<and> isValidEmail (JStr m)
        \<and> snd (post_leads_interleaved e req d0 d) = d\<lparr>leads := leads d @ [lead_data e req n m t]\<rparr>
        \<and> \<not> list_ex (\<lambda>l. email l = trim (toLowerCase m)) (leads d)"
  then obtain n m t where v: "isValidEmail (JStr m)"
    and d': "snd (post_leads_interleaved e req d0 d) = d\<lparr>leads := leads d @ [lead_data e req n m t]\<rparr>"
    and fresh: "\<not> list_ex (\<lambda>l. email l = trim (toLowerCase m)) (leads d)"
    by blast
  from v have key: "trim (toLowerCase m) = toLowerCase m" by (rule stored_email_is_key)
  from fresh have "trim (toLowerCase m) \<notin> set (map email (leads d))"
    by (auto simp: list_ex_iff)
  with assms d' key show ?thesis
    by (simp add: emails_lowercase_def)
qed

lemma run_invariant:
  "distinct (map email (leads d)) \<Longrightarrow> emails_lowercase d
     \<Longrightarrow> distinct (map email (leads (run ops d))) \<and> emails_lowercase (run ops d)"
proof (induction ops arbitrary: d)
  case Nil
  then show ?case by simp
next
  case (Cons a ops)
  obtain e r req where a: "a = (e, r, req)" by (cases a)
  from Cons.prems have "distinct (map email (leads (snd (handle e r req d))))
       \<and> emails_lowercase (snd (handle e r req d))"
    by (intro handle_invariant)
  with Cons.IH a show ?case by simp
qed

lemma run_keeps_first:
  "find (\<lambda>p. fst p = k) (map (\<lambda>l. (email l, dataCaptura l)) (leads d)) = Some x
     \<Longrightarrow> find (\<lambda>p. fst p = k) (map (\<lambda>l. (email l, dataCaptura l)) (leads (run ops d))) = Some x"
proof (induction ops arbitrary: d)
  case Nil
  then show ?case by simp
next
  case (Cons a ops)
  obtain e r req where a: "a = (e, r, req)" by (cases a)
  have "find (\<lambda>p. fst p = k)
          (map (\<lambda>l. (email l, dataCaptura l)) (leads (snd (handle e r req d)))) = Some x"
    using handle_step [of e r req d] Cons.prems by (auto simp: find_append_Some)
  with Cons.IH a show ?case by simp
qed

lemma unique_lowercase_distinct:
  "emails_lowercase d \<Longrightarrow> email_unique d = distinct (map email (leads d))"
proof -
  assume "emails_lowercase d"
  then have "map (\<lambda>l. toLowerCase (email l)) (leads d) = map email (leads d)"
    by (simp add: emails_lowercase_def list_all_iff)
  then show ?thesis by (simp only: email_unique_def)
qed

lemma count_one:
  "distinct (map email xs) \<Longrightarrow> k \<in> set (map email xs)
     \<Longrightarrow> length (filter (\<lambda>l. email l = k) xs) = 1"
proof (induction xs)
  case Nil
  then show ?case by simp
next
  case (Cons x xs)
  show ?case
  proof (cases "email x = k")
    case True
    with Cons.prems have "k \<notin> set (map email xs)" by auto
    then have "filter (\<lambda>l. email l = k) xs = []" by (auto simp: filter_empty_conv)
    with True show ?thesis by simp
  next
    case False
    with Cons show ?thesis by auto
  qed
qed


lemma created_after_check:
  assumes "post_leads_interleaved e req d0 d = (r, d')" and "http_status r = 201"
  shows "post_leads_check e req d0 = Inr None"
proof (cases "post_leads_check e req d0")
  case (Inl err)
  with assms show ?thesis
    by (auto simp: post_leads_interleaved_def post_leads_catch_def split: if_splits)
next
  case (Inr ro)
  show ?thesis
  proof (cases ro)
    case None
    with Inr show ?thesis by simp
  next
    case (Some r')
    with Inr assms have "r' = r" by (simp add: post_leads_interleaved_def)
    with Inr Some assms(2) show ?thesis using post_leads_check_not_201 by blast
  qed
qed

lemma post_leads_success:
  assumes "post_leads_interleaved e req d0 d = (r, d')" and "http_status r = 201"
    and "sanitizeInput (body req ''email'') = JStr m"
  shows "map (\<lambda>l. (email l, dataCaptura l)) (leads d')
           = map (\<lambda>l. (email l, dataCaptura l)) (leads d) @ [(toLowerCase m, now e)]
       \<and> toLowerCase m \<notin> set (map email (leads d))"
proof -
  have "post_leads_check e req d0 = Inr None" using assms(1,2) by (rule created_after_check)
  then have "passes_validation req" by (rule check_None_valid)
  with assms(3) have "isValidEmail (JStr m)" by (simp add: passes_validation_def)
  then have key: "trim (toLowerCase m) = toLowerCase m" by (rule stored_email_is_key)
  have "post_leads_create e req d = Inr (r, d')" using assms(1,2) by (rule post_leads_created)
  then obtain n m' t where m': "sanitizeInput (body req ''email'') = JStr m'"
    and lc: "lead_create e d (lead_data e req n m' t) = Inr (lead_data e req n m' t, d')"
    using post_leads_create_InrD by blast
  from m' assms(3) have mm: "m' = m" by simp
  from lc have "d' = d\<lparr>leads := leads d @ [lead_data e req n m' t]\<rparr>"
    by (simp add: lead_create_InrD)
  then have a: "map (\<lambda>l. (email l, dataCaptura l)) (leads d')
           = map (\<lambda>l. (email l, dataCaptura l)) (leads d) @ [(toLowerCase m, now e)]"
    using key mm by simp
  from lc have "\<not> list_ex (\<lambda>l. email l = trim (toLowerCase m')) (leads d)"
    by (auto simp: lead_create_def list_ex_iff split: if_splits)
  then have "toLowerCase m \<notin> set (map email (leads d))"
    using key mm by (auto simp: list_ex_iff)
  with a show ?thesis by simp
qed

lemma lead_create_errors: "lead_create e d row \<noteq> Inl P2025"
  by (simp add: lead_create_def)

lemma post_leads_create_errors: "post_leads_create e req d \<noteq> Inl P2025"
proof (cases "\<exists>n m t. sanitizeInput (body req ''nome'') = JStr n
    \<and> sanitizeInput (body req ''email'') = JStr m \<and> sanitizeInput (body req ''telefone'') = JStr t")
  case True
  then obtain n m t where nmt: "sanitizeInput (body req ''nome'') = JStr n"
    "sanitizeInput (body req ''email'') = JStr m" "sanitizeInput (body req ''telefone'') = JStr t"
    by blast
  show ?thesis
  proof (cases "lead_data_accepted req")
    case False
    with nmt show ?thesis by (simp add: post_leads_create_def)
  next
    case True
    show ?thesis
    proof (cases "lead_create e d (lead_data e req n m t)")
      case (Inl err)
      with lead_create_errors [of e d "lead_data e req n m t"] have "err \<noteq> P2025" by auto
      with Inl nmt True show ?thesis by (simp add: post_leads_create_def)
    next
      case (Inr p)
      with nmt True show ?thesis by (cases p) (simp add: post_leads_create_def)
    qed
  qed
next
  case False
  then have "post_leads_create e req d = Inl OtherError"
    by (cases "sanitizeInput (body req ''nome'')"; cases "sanitizeInput (body req ''email'')";
        cases "sanitizeInput (body req ''telefone'')") (simp_all add: post_leads_create_def)
  then show ?thesis by simp
qed

text \<open>
  C3, as stated, fails for a pair of submissions that race. The first, with email
  \<open>Jo@X.com\<close>, is stored at time 1000. The second, with email \<open>JO@X.COM\<close>, looked
  the email up before the first was stored and inserts after: it is answered 409
  \<open>EMAIL_EXISTS\<close> with no data, so the time the first lead was captured is not in the
  answer.
\<close>

theorem racing_duplicate_without_captured_at:
  "post_leads (env_at 1000 ''L1'' [])
     (mk_request [] [(''nome'', JStr ''Jo''), (''email'', JStr ''Jo@X.com''),
                     (''telefone'', JStr ''11987654321'')]) db_empty
     = (ok 201 (LeadSummary ''L1'' ''Jo'' ''jo@x.com'' 1000), db_jo)
   \<and> post_leads_interleaved (env_at 1001 ''L2'' [])
     (mk_request [] [(''nome'', JStr ''Ana''), (''email'', JStr ''JO@X.COM''),
                     (''telefone'', JStr ''11987654321'')]) db_empty db_jo
     = (\<lparr>http_status = 409, success = False, code = Some ''EMAIL_EXISTS'', data = NoData\<rparr>, db_jo)
   \<and> dataCaptura lead_jo = 1000"
  by (simp add: post_leads_eval request_eval store_eval string_eval failure_def)

text \<open>
  C3, amended. Let the stored emails be unique when letter case is ignored, and in lower
  case, as they are in every store the handlers build. When a submission is answered
  201 and a second submission that passes the four validations carries an email equal
  to the first after lower-casing, then, whatever requests are handled in between:
  the second, when it looks the email up after the first was stored, is answered 409
  \<open>EMAIL_EXISTS\<close> with the time the first lead was captured; whatever store its
  look-up read, it is never answered 201 and leaves the store as it was; when its
  look-up found nothing and its creation reaches the store, it is answered 409
  \<open>EMAIL_EXISTS\<close> with no data; exactly one stored lead has that email, letter case
  ignored; and the stored emails are still unique and in lower case. So no operation
  stores a second lead with the email or overwrites the first.
\<close>

theorem duplicate_email_rejected:
  assumes "email_unique d" and "emails_lowercase d"
    and "post_leads_interleaved e1 req1 d00 d = (r1, d1)" and "http_status r1 = 201"
    and "body req1 ''email'' = JStr a1" and "body req2 ''email'' = JStr a2"
    and "toLowerCase a1 = toLowerCase a2"
    and "passes_validation req2" and "LeadFindUnique \<notin> set (unavailable e2)"
  shows "post_leads e2 req2 (run ops d1)
           = ((failure 409 ''EMAIL_EXISTS'')\<lparr>data := DataAnterior (now e1)\<rparr>, run ops d1)
       \<and> (\<forall>d0. snd (post_leads_interleaved e2 req2 d0 (run ops d1)) = run ops d1
               \<and> http_status (fst (post_leads_interleaved e2 req2 d0 (run ops d1))) \<noteq> 201)
       \<and> (\<forall>d0. post_leads_check e2 req2 d0 = Inr None
               \<and> post_leads_create e2 req2 (run ops d1) \<noteq> Inl OtherError
             \<longrightarrow> post_leads_interleaved e2 req2 d0 (run ops d1)
                   = (failure 409 ''EMAIL_EXISTS'', run ops d1))
       \<and> length (filter (\<lambda>l. sanitizeInput (JStr (toLowerCase a1)) = JStr (toLowerCase (email l)))
                   (leads (run ops d1))) = 1
       \<and> email_unique (run ops d1) \<and> emails_lowercase (run ops d1)"
proof -
  let ?K = "\<lambda>x. map (\<lambda>l. (email l, dataCaptura l)) (leads x)"
  let ?D = "run ops d1"
  obtain m1 where m1: "sanitizeInput (JStr a1) = JStr m1" by (simp add: sanitizeInput_def)
  obtain m2 where m2: "sanitizeInput (JStr a2) = JStr m2" by (simp add: sanitizeInput_def)
  have low: "toLowerCase m1 = toLowerCase m2"
    using assms(7) m1 m2 by (rule sanitize_lower)
  have klow: "sanitizeInput (JStr (toLowerCase a1)) = JStr (toLowerCase m1)"
    using m1 by (auto simp: sanitizeInput_def toLowerCase_strip toLowerCase_trim)
  have dist: "distinct (map email (leads d))"
    using assms(1,2) by (simp add: unique_lowercase_distinct)
  from post_leads_success [OF assms(3,4)] m1 assms(5)
  have K1: "?K d1 = ?K d @ [(toLowerCase m1, now e1)]"
    and fresh: "toLowerCase m1 \<notin> set (map email (leads d))" by simp_all
  from fresh have "\<forall>l\<in>set (leads d). email l \<noteq> toLowerCase m1" by force
  then have "find (\<lambda>p. fst p = toLowerCase m1) (?K d) = None"
    by (simp add: find_None_iff)
  with K1 have f1: "find (\<lambda>p. fst p = toLowerCase m1) (?K d1) = Some (toLowerCase m1, now e1)"
    by (simp add: find_append_None)
  then have "find (\<lambda>p. fst p = toLowerCase m1) (?K ?D) = Some (toLowerCase m1, now e1)"
    by (rule run_keeps_first)
  then obtain l where l: "find (\<lambda>l. email l = toLowerCase m1) (leads ?D) = Some l"
    and t: "dataCaptura l = now e1"
    by (auto simp: find_map_key)
  have inv1: "distinct (map email (leads d1)) \<and> emails_lowercase d1"
  proof -
    have "snd (post_leads_interleaved e1 req1 d00 d) = d1" using assms(3) by simp
    then show ?thesis using interleaved_invariant [OF dist assms(2), of e1 req1 d00] by simp
  qed
  then have inv: "distinct (map email (leads ?D))" "emails_lowercase ?D"
    using run_invariant by blast+
  have second: "sanitizeInput (body req2 ''email'') = JStr m2"
    using assms(6) m2 by simp
  have "post_leads_check e2 req2 ?D
      = Inr (Some ((failure 409 ''EMAIL_EXISTS'')\<lparr>data := DataAnterior (dataCaptura l)\<rparr>))"
    using check_lookup [of req2 m2 e2 ?D] assms(8,9) second l low
    by (simp add: passes_validation_def)
  then have resp: "post_leads e2 req2 ?D
           = ((failure 409 ''EMAIL_EXISTS'')\<lparr>data := DataAnterior (now e1)\<rparr>, ?D)"
    using t by (simp add: post_leads_def interleaved_responded)
  from l have "l \<in> set (leads ?D) \<and> email l = toLowerCase m1"
    by (rule find_Some_member)
  then have kin: "toLowerCase m1 \<in> set (map email (leads ?D))"
    by force
  with inv(1) have "length (filter (\<lambda>l. email l = toLowerCase m1) (leads ?D)) = 1"
    by (rule count_one)
  moreover have "filter (\<lambda>l. sanitizeInput (JStr (toLowerCase a1)) = JStr (toLowerCase (email l)))
                   (leads ?D)
      = filter (\<lambda>l. email l = toLowerCase m1) (leads ?D)"
    using inv(2) by (intro filter_cong) (auto simp: klow emails_lowercase_def list_all_iff)
  ultimately have cnt: "length (filter (\<lambda>l. sanitizeInput (JStr (toLowerCase a1))
        = JStr (toLowerCase (email l))) (leads ?D)) = 1" by simp
  from inv have uniq: "email_unique ?D" by (simp add: unique_lowercase_distinct)
  have kin2: "toLowerCase m2 \<in> set (map email (leads ?D))" using kin low by simp
  have "isValidEmail (JStr m2)" using assms(8) second by (simp add: passes_validation_def)
  then have key2: "trim (toLowerCase m2) = toLowerCase m2" by (rule stored_email_is_key)
  have not201: "http_status (fst (post_leads_interleaved e2 req2 d0 ?D)) \<noteq> 201" for d0
  proof
    assume st: "http_status (fst (post_leads_interleaved e2 req2 d0 ?D)) = 201"
    have "post_leads_interleaved e2 req2 d0 ?D
        = (fst (post_leads_interleaved e2 req2 d0 ?D), snd (post_leads_interleaved e2 req2 d0 ?D))"
      by simp
    from post_leads_success [OF this st second]
    have "toLowerCase m2 \<notin> set (map email (leads ?D))" by simp
    with kin2 show False by simp
  qed
  have same: "snd (post_leads_interleaved e2 req2 d0 ?D) = ?D" for d0
    using post_leads_interleaved_cases [of e2 req2 d0 ?D]
  proof
    assume "snd (post_leads_interleaved e2 req2 d0 ?D) = ?D"
    then show ?thesis .
  next
    assume "\<exists>n m t. sanitizeInput (body req2 ''email'') = JStr m \<and> isValidEmail (JStr m)
        \<and> snd (post_leads_interleaved e2 req2 d0 ?D) = ?D\<lparr>leads := leads ?D @ [lead_data e2 req2 n m t]\<rparr>
        \<and> \<not> list_ex (\<lambda>l. email l = trim (toLowerCase m)) (leads ?D)"
    then obtain m where "sanitizeInput (body req2 ''email'') = JStr m"
      and nx: "\<not> list_ex (\<lambda>l. email l = trim (toLowerCase m)) (leads ?D)" by blast
    with second have "m = m2" by simp
    with nx key2 have "toLowerCase m2 \<notin> set (map email (leads ?D))"
      by (auto simp: list_ex_iff)
    with kin2 show ?thesis by simp
  qed
  have race: "post_leads_interleaved e2 req2 d0 ?D = (failure 409 ''EMAIL_EXISTS'', ?D)"
    if chk: "post_leads_check e2 req2 d0 = Inr None"
      and other: "post_leads_create e2 req2 ?D \<noteq> Inl OtherError" for d0
  proof (cases "post_leads_create e2 req2 ?D")
    case (Inl err)
    with other post_leads_create_errors [of e2 req2 ?D] have "err = P2002" by (cases err) simp_all
    with Inl chk show ?thesis
      by (simp add: post_leads_interleaved_def post_leads_catch_def)
  next
    case (Inr p)
    obtain r d' where p: "p = (r, d')" by (cases p)
    with Inr have cr: "post_leads_create e2 req2 ?D = Inr (r, d')" by simp
    then have "http_status r = 201" using post_leads_create_InrD by fastforce
    moreover have "fst (post_leads_interleaved e2 req2 d0 ?D) = r"
      using chk cr by (simp add: post_leads_interleaved_def)
    ultimately show ?thesis using not201 [of d0] by simp
  qed
  from resp not201 same race cnt uniq inv(2) show ?thesis by blast
qed

theorem duplicate_email_rejected_witness:
  "post_leads (env_at 2000 ''L2'' [])
     (mk_request [] [(''nome'', JStr ''Ana''), (''email'', JStr ''JO@x.COM''),
                     (''telefone'', JStr ''(11) 98765-4321'')])
     (run [(env_at 1500 ''X'' [], PatchStatus ''L1'',
            mk_request admin_key [(''status'', JStr ''contatado'')])] db_jo)
   = ((failure 409 ''EMAIL_EXISTS'')\<lparr>data := DataAnterior 1000\<rparr>,
      run [(env_at 1500 ''X'' [], PatchStatus ''L1'',
            mk_request admin_key [(''status'', JStr ''contatado'')])] db_jo)
   \<and> email_unique (run [(env_at 1500 ''X'' [], PatchStatus ''L1'',
            mk_request admin_key [(''status'', JStr ''contatado'')])] db_jo)
   \<and> post_leads_interleaved (env_at 2000 ''L2'' [])
     (mk_request [] [(''nome'', JStr ''Ana''), (''email'', JStr ''JO@x.COM''),
                     (''telefone'', JStr ''(11) 98765-4321'')]) db_empty db_jo
   = (failure 409 ''EMAIL_EXISTS'', db_jo)"
proof -
  let ?e1 = "env_at 1000 ''L1'' []"
  let ?req1 = "mk_request [] [(''nome'', JStr ''Jo''), (''email'', JStr ''Jo@X.com''),
                     (''telefone'', JStr ''11987654321'')]"
  let ?e2 = "env_at 2000 ''L2'' []"
  let ?req2 = "mk_request [] [(''nome'', JStr ''Ana''), (''email'', JStr ''JO@x.COM''),
                     (''telefone'', JStr ''(11) 98765-4321'')]"
  have u: "email_unique db_empty" by (simp add: email_unique_def db_empty_def)
  have lc: "emails_lowercase db_empty" by (simp add: emails_lowercase_def db_empty_def)
  have first: "post_leads_interleaved ?e1 ?req1 db_empty db_empty
      = (ok 201 (LeadSummary ''L1'' ''Jo'' ''jo@x.com'' 1000), db_jo)"
    by (simp add: post_leads_eval request_eval store_eval string_eval)
  have st: "http_status (ok 201 (LeadSummary ''L1'' ''Jo'' ''jo@x.com'' 1000)) = 201" by simp
  have a1: "body ?req1 ''email'' = JStr ''Jo@X.com''" by (simp add: request_eval)
  have a2: "body ?req2 ''email'' = JStr ''JO@x.COM''" by (simp add: request_eval)
  have same: "toLowerCase ''Jo@X.com'' = toLowerCase ''JO@x.COM''"
    by (simp add: toLowerCase_def toLowerCase_char_def)
  have pv: "passes_validation ?req2"
    by (simp add: passes_validation_def request_eval string_eval)
  have av: "LeadFindUnique \<notin> set (unavailable ?e2)" by (simp add: env_at_def)
  have t: "now ?e1 = 1000" by (simp add: env_at_def)
  have chk: "post_leads_check ?e2 ?req2 db_empty = Inr None"
    by (simp add: post_leads_eval request_eval store_eval string_eval)
  have cr: "post_leads_create ?e2 ?req2 db_jo \<noteq> Inl OtherError"
    by (simp add: post_leads_eval request_eval store_eval string_eval)
  have seq: "post_leads ?e2 ?req2
       (run [(env_at 1500 ''X'' [], PatchStatus ''L1'',
            mk_request admin_key [(''status'', JStr ''contatado'')])] db_jo)
     = ((failure 409 ''EMAIL_EXISTS'')\<lparr>data := DataAnterior 1000\<rparr>,
        run [(env_at 1500 ''X'' [], PatchStatus ''L1'',
            mk_request admin_key [(''status'', JStr ''contatado'')])] db_jo)
     \<and> email_unique (run [(env_at 1500 ''X'' [], PatchStatus ''L1'',
            mk_request admin_key [(''status'', JStr ''contatado'')])] db_jo)"
    using duplicate_email_rejected [OF u lc first st a1 a2 same pv av,
        where ops = "[(env_at 1500 ''X'' [], PatchStatus ''L1'',
            mk_request admin_key [(''status'', JStr ''contatado'')])]"] t
    by (simp del: run.simps)
  have "\<forall>d0. post_leads_check ?e2 ?req2 d0 = Inr None
               \<and> post_leads_create ?e2 ?req2 (run [] db_jo) \<noteq> Inl OtherError
             \<longrightarrow> post_leads_interleaved ?e2 ?req2 d0 (run [] db_jo)
                   = (failure 409 ''EMAIL_EXISTS'', run [] db_jo)"
    using duplicate_email_rejected [OF u lc first st a1 a2 same pv av, where ops = "[]"]
    by blast
  with chk cr have "post_leads_interleaved ?e2 ?req2 db_empty db_jo
      = (failure 409 ''EMAIL_EXISTS'', db_jo)" by simp
  with seq show ?thesis by simp
qed

section \<open>Listing: pagination\<close>

















lemma lead_n_dataCaptura [simp]: "dataCaptura (lead_n k) = int k"
  by (simp add: lead_n_def)


end
